theory Spec2Isabelle
  imports Main "HOL-Library.Word"
begin

section \<open>JavaScript strings\<close>

text \<open>
  A JavaScript string is a sequence of 16-bit UTF-16 code units. The regular expressions of
  \<^verbatim>\<open>parser.ts\<close> carry no \<^verbatim>\<open>u\<close> flag, so they too work on code units.
\<close>

type_synonym jschar = "16 word"
type_synonym jsstring = "jschar list"

abbreviation ch :: "char \<Rightarrow> jschar" where
  "ch c \<equiv> of_char c"

definition lit :: "string \<Rightarrow> jsstring" where
  "lit s = map of_char s"

text \<open>
  The class \<^verbatim>\<open>\s\<close> and the characters removed by \<^verbatim>\<open>String.prototype.trim\<close> are the
  same set: WhiteSpace (TAB, VT, FF, ZWNBSP and the Unicode space separators) and
  LineTerminator (LF, CR, LS, PS).
\<close>

definition is_space :: "jschar \<Rightarrow> bool" where
  "is_space c \<longleftrightarrow>
     c = 0x09 \<or> c = 0x0A \<or> c = 0x0B \<or> c = 0x0C \<or> c = 0x0D \<or> c = 0x20 \<or> c = 0xA0 \<or>
     c = 0x1680 \<or> (0x2000 \<le> c \<and> c \<le> 0x200A) \<or> c = 0x2028 \<or> c = 0x2029 \<or>
     c = 0x202F \<or> c = 0x205F \<or> c = 0x3000 \<or> c = 0xFEFF"

text \<open>\<^verbatim>\<open>\d\<close> is \<^verbatim>\<open>[0-9]\<close>; \<^verbatim>\<open>[A-Z]\<close> is the ASCII upper-case range.\<close>

definition is_digit :: "jschar \<Rightarrow> bool" where
  "is_digit c \<longleftrightarrow> 0x30 \<le> c \<and> c \<le> 0x39"

definition is_upper :: "jschar \<Rightarrow> bool" where
  "is_upper c \<longleftrightarrow> 0x41 \<le> c \<and> c \<le> 0x5A"

definition trim :: "jsstring \<Rightarrow> jsstring" where
  "trim s = rev (dropWhile is_space (rev (dropWhile is_space s)))"

definition startsWith :: "jsstring \<Rightarrow> jsstring \<Rightarrow> bool" where
  "startsWith s p \<longleftrightarrow> take (length p) s = p"

text \<open>\<^verbatim>\<open>s.slice(n)\<close> for a non-negative \<open>n\<close>; beyond the end it is the empty string.\<close>

definition slice :: "jsstring \<Rightarrow> nat \<Rightarrow> jsstring" where
  "slice s n = drop n s"

text \<open>\<^verbatim>\<open>s.split(sep)\<close> for a one-character separator; the empty string gives one empty piece.\<close>

fun split_when :: "('a \<Rightarrow> bool) \<Rightarrow> 'a list \<Rightarrow> 'a list list" where
  "split_when P [] = [[]]"
| "split_when P (c # cs) =
     (if P c then [] # split_when P cs
      else (case split_when P cs of [] \<Rightarrow> [[c]] | l # ls \<Rightarrow> (c # l) # ls))"

definition split_lines :: "jsstring \<Rightarrow> jsstring list" where
  "split_lines text = split_when (\<lambda>c. c = 0x0A) text"

text \<open>\<^verbatim>\<open>xs.join(sep)\<close>.\<close>

fun join :: "jsstring \<Rightarrow> jsstring list \<Rightarrow> jsstring" where
  "join sep [] = []"
| "join sep [x] = x"
| "join sep (x # y # ys) = x @ sep @ join sep (y # ys)"

section \<open>The regular expressions of the parser\<close>

text \<open>
  An anchored pattern made of single-character classes, such as
  \<^verbatim>\<open>/^\(([A-Z])\)\s/\<close>: one predicate per position.
\<close>

fun match_seq :: "(jschar \<Rightarrow> bool) list \<Rightarrow> jsstring \<Rightarrow> bool" where
  "match_seq [] s = True"
| "match_seq (p # ps) [] = False"
| "match_seq (p # ps) (c # cs) = (p c \<and> match_seq ps cs)"

definition priority_regex :: "(jschar \<Rightarrow> bool) list" where
  "priority_regex = [\<lambda>c. c = ch CHR ''('', is_upper, \<lambda>c. c = ch CHR '')'', is_space]"

definition date_regex :: "(jschar \<Rightarrow> bool) list" where
  "date_regex =
     [is_digit, is_digit, is_digit, is_digit, \<lambda>c. c = ch CHR ''-'',
      is_digit, is_digit, \<lambda>c. c = ch CHR ''-'', is_digit, is_digit, is_space]"

text \<open>
  \<^verbatim>\<open>remaining.match(/^\(([A-Z])\)\s/)\<close>: \<open>None\<close> for \<^verbatim>\<open>null\<close>, otherwise the pair
  of \<^verbatim>\<open>match[0]\<close> and \<^verbatim>\<open>match[1]\<close>.
\<close>

definition match_priority :: "jsstring \<Rightarrow> (jsstring \<times> jsstring) option" where
  "match_priority s =
     (if match_seq priority_regex s then Some (take 4 s, take 1 (drop 1 s)) else None)"

text \<open>\<^verbatim>\<open>remaining.match(/^(\d{4}-\d{2}-\d{2})\s/)\<close>.\<close>

definition match_date :: "jsstring \<Rightarrow> (jsstring \<times> jsstring) option" where
  "match_date s = (if match_seq date_regex s then Some (take 11 s, take 10 s) else None)"

text \<open>The greedy \<^verbatim>\<open>\S*\<close> at the head of a string, and what follows it.\<close>

definition run :: "jsstring \<Rightarrow> jsstring" where
  "run s = takeWhile (\<lambda>c. \<not> is_space c) s"

definition after_run :: "jsstring \<Rightarrow> jsstring" where
  "after_run s = dropWhile (\<lambda>c. \<not> is_space c) s"

text \<open>
  \<^verbatim>\<open>\+(\S+)\<close> (or \<^verbatim>\<open>@(\S+)\<close>) at the head of \<open>s\<close>: the captured group and the text
  after the match.
\<close>

definition match_marker :: "jschar \<Rightarrow> jsstring \<Rightarrow> (jsstring \<times> jsstring) option" where
  "match_marker m s =
     (case s of
        [] \<Rightarrow> None
      | c # cs \<Rightarrow> if c = m \<and> run cs \<noteq> [] then Some (run cs, after_run cs) else None)"

text \<open>
  \<^verbatim>\<open>(?:^|\s)\+(\S+)\<close> tried at one position; \<open>at_start\<close> says that the position is 0,
  where \<^verbatim>\<open>^\<close> holds. The first alternative is tried first.
\<close>

definition match_boundary_marker ::
  "jschar \<Rightarrow> bool \<Rightarrow> jsstring \<Rightarrow> (jsstring \<times> jsstring) option" where
  "match_boundary_marker m at_start s =
     (case (if at_start then match_marker m s else None) of
        Some r \<Rightarrow> Some r
      | None \<Rightarrow>
          (case s of
             [] \<Rightarrow> None
           | w # s' \<Rightarrow> if is_space w then match_marker m s' else None))"

text \<open>
  \<^verbatim>\<open>trimmed.matchAll(/(?:^|\s)\+(\S+)/g)\<close>: the scan resumes at the end of each match
  and moves on by one character where the pattern does not match. The result lists
  \<^verbatim>\<open>match[1]\<close> of every match.
\<close>

function matchAll_marker :: "jschar \<Rightarrow> bool \<Rightarrow> jsstring \<Rightarrow> jsstring list" where
  "matchAll_marker m at_start [] = []"
| "matchAll_marker m at_start (c # cs) =
     (case match_boundary_marker m at_start (c # cs) of
        Some (g, rest) \<Rightarrow> g # matchAll_marker m False rest
      | None \<Rightarrow> matchAll_marker m False cs)"
  by pat_completeness auto
termination
proof (relation "measure (\<lambda>(m, b, s). length s)")
  fix m :: jschar and at_start c cs x2 g rest
  assume "match_boundary_marker m at_start (c # cs) = Some x2" and "(g, rest) = x2"
  then have "length rest \<le> length cs"
    by (auto simp: match_boundary_marker_def match_marker_def after_run_def
        split: if_splits list.splits
        intro: length_dropWhile_le le_SucI)
  then show "((m, False, rest), (m, at_start, c # cs)) \<in> measure (\<lambda>(m, b, s). length s)"
    by simp
qed auto

text \<open>
  \<^verbatim>\<open>(\S+?):(\S+)\<close> with the key matched so far in \<open>key\<close> (not empty): the lazy
  quantifier first tries to go on with \<^verbatim>\<open>:(\S+)\<close> and only then takes one more
  non-whitespace character (a colon included) into the key. The result is the key,
  the value and the text after the match.
\<close>

fun lazy_key :: "jsstring \<Rightarrow> jsstring \<Rightarrow> (jsstring \<times> jsstring \<times> jsstring) option" where
  "lazy_key key [] = None"
| "lazy_key key (c # cs) =
     (if c = ch CHR '':'' \<and> run cs \<noteq> [] then Some (key, run cs, after_run cs)
      else if is_space c then None
      else lazy_key (key @ [c]) cs)"

definition match_tag :: "jsstring \<Rightarrow> (jsstring \<times> jsstring \<times> jsstring) option" where
  "match_tag s =
     (case s of [] \<Rightarrow> None | c # cs \<Rightarrow> if is_space c then None else lazy_key [c] cs)"

text \<open>
  \<^verbatim>\<open>trimmed.matchAll(/(\S+?):(\S+)/g)\<close>: every match as the triple of
  \<^verbatim>\<open>match[0]\<close>, \<^verbatim>\<open>match[1]\<close> and \<^verbatim>\<open>match[2]\<close>.
\<close>

function matchAll_tag :: "jsstring \<Rightarrow> (jsstring \<times> jsstring \<times> jsstring) list" where
  "matchAll_tag [] = []"
| "matchAll_tag (c # cs) =
     (case match_tag (c # cs) of
        Some (k, v, rest) \<Rightarrow> (k @ ch CHR '':'' # v, k, v) # matchAll_tag rest
      | None \<Rightarrow> matchAll_tag cs)"
  by pat_completeness auto
termination
proof (relation "measure length")
  fix c :: jschar and cs x2 k y v rest
  assume m: "match_tag (c # cs) = Some x2" and "(k, y) = x2" and "(v, rest) = y"
  have "lazy_key key s = Some (k', v', r) \<Longrightarrow> length r \<le> length s" for key s k' v' r
    by (induction key s rule: lazy_key.induct)
      (auto simp: after_run_def split: if_splits intro: le_SucI length_dropWhile_le)
  with m \<open>(k, y) = x2\<close> \<open>(v, rest) = y\<close> have "length rest \<le> length cs"
    by (auto simp: match_tag_def split: if_splits)
  then show "(rest, c # cs) \<in> measure length"
    by simp
qed auto

section \<open>The data model (types.ts)\<close>

text \<open>
  The interface \<^verbatim>\<open>Todo\<close>. An optional field such as \<^verbatim>\<open>priority?: string\<close> is an option,
  \<open>None\<close> standing for \<^verbatim>\<open>undefined\<close>; \<^verbatim>\<open>tags\<close> is a map from keys to values.
\<close>

record Todo =
  completed :: bool
  priority :: "jsstring option"
  completionDate :: "jsstring option"
  creationDate :: "jsstring option"
  description :: jsstring
  projects :: "jsstring list"
  contexts :: "jsstring list"
  tags :: "jsstring \<rightharpoonup> jsstring"
  raw :: jsstring

text \<open>
  \<^verbatim>\<open>tags[key] = value\<close> on an object made by \<^verbatim>\<open>{}\<close>. Every key becomes an own
  property, except \<^verbatim>\<open>__proto__\<close>: that name is an accessor of \<^verbatim>\<open>Object.prototype\<close>
  whose setter ignores a string, so the object stays as it is.
\<close>

definition obj_set :: "(jsstring \<rightharpoonup> jsstring) \<Rightarrow> jsstring \<Rightarrow> jsstring \<Rightarrow> (jsstring \<rightharpoonup> jsstring)" where
  "obj_set obj key v = (if key = lit ''__proto__'' then obj else obj(key \<mapsto> v))"

section \<open>parseTodoLine\<close>

text \<open>The completion mark: \<open>completed\<close> and the first value of \<^verbatim>\<open>remaining\<close>.\<close>

definition parse_completion :: "jsstring \<Rightarrow> bool \<times> jsstring" where
  "parse_completion trimmed =
     (let completed' = startsWith trimmed (lit ''x '');
          remaining = (if completed' then trim (slice trimmed 2) else trimmed)
      in (completed', remaining))"

text \<open>The priority block: \<open>priority\<close> and the new \<^verbatim>\<open>remaining\<close>.\<close>

definition parse_priority :: "jsstring \<Rightarrow> jsstring option \<times> jsstring" where
  "parse_priority remaining =
     (case match_priority remaining of
        Some (m0, m1) \<Rightarrow> (Some m1, slice remaining (length m0))
      | None \<Rightarrow> (None, remaining))"

text \<open>The date block: \<open>completionDate\<close>, \<open>creationDate\<close> and the new \<^verbatim>\<open>remaining\<close>.\<close>

definition parse_dates :: "bool \<Rightarrow> jsstring \<Rightarrow> jsstring option \<times> jsstring option \<times> jsstring" where
  "parse_dates completed' remaining =
     (case match_date remaining of
        None \<Rightarrow> (None, None, remaining)
      | Some (f0, f1) \<Rightarrow>
          (let remaining = slice remaining (length f0) in
           case match_date remaining of
             Some (s0, s1) \<Rightarrow> (Some f1, Some s1, slice remaining (length s0))
           | None \<Rightarrow>
               if completed' then (Some f1, None, remaining) else (None, Some f1, remaining)))"

text \<open>The two loops over the project and context matches (\<^verbatim>\<open>if (match[1]) push\<close>).\<close>

definition collect_marked :: "jschar \<Rightarrow> jsstring \<Rightarrow> jsstring list" where
  "collect_marked m trimmed =
     foldl (\<lambda>acc g. if g \<noteq> [] then acc @ [g] else acc) [] (matchAll_marker m True trimmed)"

text \<open>The body of the loop over the tag matches.\<close>

definition tag_step ::
  "(jsstring \<rightharpoonup> jsstring) \<Rightarrow> jsstring \<times> jsstring \<times> jsstring \<Rightarrow> (jsstring \<rightharpoonup> jsstring)" where
  "tag_step tgs m =
     (case m of (m0, m1, m2) \<Rightarrow>
        if m1 \<noteq> [] \<and> m2 \<noteq> [] \<and> \<not> startsWith m0 (lit ''+'') \<and> \<not> startsWith m0 (lit ''@'')
        then obj_set tgs m1 m2 else tgs)"

definition collect_tags :: "jsstring \<Rightarrow> (jsstring \<rightharpoonup> jsstring)" where
  "collect_tags trimmed = foldl tag_step Map.empty (matchAll_tag trimmed)"

definition parseTodoLine :: "jsstring \<Rightarrow> Todo" where
  "parseTodoLine line =
     (let trimmed = trim line;
          (completed', remaining) = parse_completion trimmed;
          (priority', remaining) = parse_priority remaining;
          (completionDate', creationDate', remaining) = parse_dates completed' remaining
      in \<lparr> completed = completed',
           priority = priority',
           completionDate = completionDate',
           creationDate = creationDate',
           description = remaining,
           projects = collect_marked (ch CHR ''+'') trimmed,
           contexts = collect_marked (ch CHR ''@'') trimmed,
           tags = collect_tags trimmed,
           raw = line \<rparr>)"

section \<open>parseTodoTxt\<close>

definition parseTodoTxt :: "jsstring \<Rightarrow> Todo list" where
  "parseTodoTxt text =
     foldl (\<lambda>todos line. if length (trim line) > 0 then todos @ [parseTodoLine line] else todos)
       [] (split_lines text)"

section \<open>serializeTodo\<close>

text \<open>
  \<^verbatim>\<open>if (todo.priority)\<close> tests JavaScript truthiness: \<^verbatim>\<open>undefined\<close> and the empty string
  both fail it.
\<close>

definition truthy :: "jsstring option \<Rightarrow> bool" where
  "truthy v = (case v of None \<Rightarrow> False | Some s \<Rightarrow> s \<noteq> [])"

definition str :: "jsstring option \<Rightarrow> jsstring" where
  "str v = (case v of None \<Rightarrow> lit ''undefined'' | Some s \<Rightarrow> s)"

definition serializeTodo :: "Todo \<Rightarrow> jsstring" where
  "serializeTodo todo =
     (let result = [];
          result = (if completed todo then result @ lit ''x '' else result);
          result = (if truthy (priority todo)
                    then result @ lit ''('' @ str (priority todo) @ lit '') '' else result);
          result = (if completed todo \<and> truthy (completionDate todo)
                    then result @ str (completionDate todo) @ lit '' '' else result);
          result = (if truthy (creationDate todo)
                    then result @ str (creationDate todo) @ lit '' '' else result)
      in result @ description todo)"

section \<open>The buffer operations\<close>

definition nl :: jsstring where
  "nl = [0x0A]"

text \<open>
  The index of a record is a JavaScript \<^verbatim>\<open>number\<close>, a double. The operations compare it
  with integers and use it as an array index, and for both only this much of it counts:
  \<open>Num i\<close> is the integer value \<open>i\<close> (both zeros are \<open>Num 0\<close>), \<open>Frac i\<close> is a value
  that is not an integer and lies between \<open>i\<close> and \<open>i + 1\<close>, and there are \<^verbatim>\<open>NaN\<close> and the
  two infinities.
\<close>

datatype jsnumber = Num int | Frac int | NaN | PosInfinity | NegInfinity

text \<open>
  \<^verbatim>\<open>x < n\<close> and \<^verbatim>\<open>x >= n\<close> for an integer \<open>n\<close>; every comparison with \<^verbatim>\<open>NaN\<close> is false.
\<close>

definition num_less :: "jsnumber \<Rightarrow> int \<Rightarrow> bool" where
  "num_less x n =
     (case x of Num i \<Rightarrow> i < n | Frac i \<Rightarrow> i < n | NaN \<Rightarrow> False
      | PosInfinity \<Rightarrow> False | NegInfinity \<Rightarrow> True)"

definition num_ge :: "jsnumber \<Rightarrow> int \<Rightarrow> bool" where
  "num_ge x n =
     (case x of Num i \<Rightarrow> n \<le> i | Frac i \<Rightarrow> n \<le> i | NaN \<Rightarrow> False
      | PosInfinity \<Rightarrow> True | NegInfinity \<Rightarrow> False)"

text \<open>
  \<^verbatim>\<open>xs[x] = v\<close> on an array \<open>xs\<close>, for an \<open>x\<close> that is not at or above the length of
  \<open>xs\<close> (there the array would grow; the source never gets there). An integer from 0 on
  replaces the element at its position. A negative integer, \<^verbatim>\<open>NaN\<close>, an infinity or a value
  that is not an integer names a property that is no element of the array: the elements stay
  as they are, and \<^verbatim>\<open>map\<close> does not see the property.
\<close>

definition array_set :: "'a list \<Rightarrow> jsnumber \<Rightarrow> 'a \<Rightarrow> 'a list" where
  "array_set xs x v = (case x of Num i \<Rightarrow> if 0 \<le> i then xs[nat i := v] else xs | _ \<Rightarrow> xs)"

definition updateTodoInList :: "Todo list \<Rightarrow> jsnumber \<Rightarrow> Todo \<Rightarrow> jsstring" where
  "updateTodoInList todos index updatedTodo =
     (if length todos = 0 then []
      else if num_less index 0 \<or> num_ge index (int (length todos))
        then join nl (map serializeTodo todos)
      else let updatedTodos = array_set todos index updatedTodo
           in join nl (map serializeTodo updatedTodos))"

definition appendTaskToFile :: "jsstring \<Rightarrow> Todo \<Rightarrow> jsstring" where
  "appendTaskToFile content newTask =
     (let serializedTask = serializeTodo newTask
      in if length content = 0 then serializedTask else content @ nl @ serializedTask)"

definition updateTaskAtLine :: "jsstring \<Rightarrow> jsnumber \<Rightarrow> Todo \<Rightarrow> jsstring" where
  "updateTaskAtLine content lineIndex updatedTodo =
     (if length content = 0 then []
      else let todos = parseTodoTxt content
           in if num_less lineIndex 0 \<or> num_ge lineIndex (int (length todos)) then content
              else updateTodoInList todos lineIndex updatedTodo)"

text \<open>
  \<^verbatim>\<open>todos.filter((_todo, index) => index !== lineIndex)\<close>: the position \<open>index\<close> is an
  integer, and it differs from every \<open>lineIndex\<close> that is not this integer.
\<close>

definition filter_index :: "jsnumber \<Rightarrow> 'a list \<Rightarrow> 'a list" where
  "filter_index lineIndex xs =
     map snd (filter (\<lambda>(index, _). Num (int index) \<noteq> lineIndex) (enumerate 0 xs))"

definition deleteTaskAtLine :: "jsstring \<Rightarrow> jsnumber \<Rightarrow> jsstring" where
  "deleteTaskAtLine content lineIndex =
     (if length content = 0 then []
      else let todos = parseTodoTxt content
           in if num_less lineIndex 0 \<or> num_ge lineIndex (int (length todos)) then content
              else let updatedTodos = filter_index lineIndex todos
                   in if length updatedTodos = 0 then []
                      else join nl (map serializeTodo updatedTodos))"

section \<open>The operations with the errors they could raise\<close>

text \<open>
  JavaScript raises a \<^verbatim>\<open>TypeError\<close> where a property is read from \<^verbatim>\<open>null\<close> or from
  \<^verbatim>\<open>undefined\<close>. In \<^verbatim>\<open>parser.ts\<close> this could happen where the result of \<^verbatim>\<open>match\<close> is
  indexed (it is \<^verbatim>\<open>null\<close> when the pattern does not match) and where \<^verbatim>\<open>length\<close> or
  \<^verbatim>\<open>startsWith\<close> is taken of an element of a match array (it is \<^verbatim>\<open>undefined\<close> past the
  end of the array). This section writes the parser once more with these reads made
  explicit: a result is \<open>Inr v\<close>, or \<open>Inl TypeError\<close>. The guards are those of the source.
  The limits of an engine (memory, the longest string it can build) are not modelled.
\<close>

datatype js_error = TypeError

definition bind_js :: "js_error + 'a \<Rightarrow> ('a \<Rightarrow> js_error + 'b) \<Rightarrow> js_error + 'b" where
  "bind_js r f = (case r of Inl e \<Rightarrow> Inl e | Inr v \<Rightarrow> f v)"

text \<open>
  The value of \<^verbatim>\<open>remaining.match(re)\<close> for a pattern with one group: \<^verbatim>\<open>null\<close>, or the array
  of \<^verbatim>\<open>match[0]\<close> and \<^verbatim>\<open>match[1]\<close>.
\<close>

definition match_array :: "(jsstring \<times> jsstring) option \<Rightarrow> jsstring list option" where
  "match_array r = (case r of None \<Rightarrow> None | Some (m0, m1) \<Rightarrow> Some [m0, m1])"

text \<open>
  \<^verbatim>\<open>m[i]\<close> for an \<open>m\<close> that is an array or \<^verbatim>\<open>null\<close>; \<^verbatim>\<open>v.length\<close> and
  \<^verbatim>\<open>v.startsWith(p)\<close> for a \<open>v\<close> that is a string or \<^verbatim>\<open>undefined\<close>.
\<close>

definition at_index :: "jsstring list option \<Rightarrow> nat \<Rightarrow> js_error + jsstring option" where
  "at_index m i =
     (case m of
        None \<Rightarrow> Inl TypeError
      | Some a \<Rightarrow> Inr (if i < length a then Some (a ! i) else None))"

definition length_of :: "jsstring option \<Rightarrow> js_error + nat" where
  "length_of v = (case v of None \<Rightarrow> Inl TypeError | Some s \<Rightarrow> Inr (length s))"











section \<open>Notions used to state the properties\<close>

text \<open>
  The tokens of a text: its maximal runs of non-whitespace characters, from left to
  right.
\<close>

definition tokens :: "jsstring \<Rightarrow> jsstring list" where
  "tokens s = filter (\<lambda>t. t \<noteq> []) (split_when is_space s)"

text \<open>
  What a token contributes to the projects (or contexts): the text after the marker, when
  the token begins with the marker and goes on.
\<close>

definition marked :: "jschar \<Rightarrow> jsstring \<Rightarrow> jsstring option" where
  "marked m t = (case t of [] \<Rightarrow> None | c # g \<Rightarrow> if c = m \<and> g \<noteq> [] then Some g else None)"

text \<open>
  A token split at its first colon that is not its first character; there is no result
  when nothing follows that colon or when there is no such colon.
\<close>

definition split_tag :: "jsstring \<Rightarrow> (jsstring \<times> jsstring) option" where
  "split_tag t =
     (case t of
        [] \<Rightarrow> None
      | c # r \<Rightarrow>
          (let k = c # takeWhile (\<lambda>x. x \<noteq> ch CHR '':'') r;
               v = drop 1 (dropWhile (\<lambda>x. x \<noteq> ch CHR '':'') r)
           in if v \<noteq> [] then Some (k, v) else None))"

text \<open>
  The tag that a token gives: none for a token that begins with \<^verbatim>\<open>+\<close> or \<^verbatim>\<open>@\<close>.
\<close>

definition tag_of_token :: "jsstring \<Rightarrow> (jsstring \<times> jsstring) option" where
  "tag_of_token t =
     (if startsWith t (lit ''+'') \<or> startsWith t (lit ''@'') then None else split_tag t)"

text \<open>
  The match array that the tag pattern gives on a token.
\<close>

definition tag_match :: "jsstring \<Rightarrow> (jsstring \<times> jsstring \<times> jsstring) option" where
  "tag_match t = map_option (\<lambda>(k, v). (t, k, v)) (split_tag t)"

text \<open>
  A text with no whitespace at either end.
\<close>

definition is_trimmed :: "jsstring \<Rightarrow> bool" where
  "is_trimmed s \<longleftrightarrow> (case s of [] \<Rightarrow> True | c # _ \<Rightarrow> \<not> is_space c \<and> \<not> is_space (last s))"

text \<open>
  The lines of a text that are not blank, in order.
\<close>

definition nonblank_lines :: "jsstring \<Rightarrow> jsstring list" where
  "nonblank_lines text = filter (\<lambda>line. trim line \<noteq> []) (split_lines text)"

text \<open>
  Following the spec's words for claim C8: an index lies in the range of \<open>n\<close> records when
  it is a number from 0 on and below \<open>n\<close>. \<^verbatim>\<open>NaN\<close> and the infinities are outside.
\<close>

definition index_in_range :: "jsnumber \<Rightarrow> nat \<Rightarrow> bool" where
  "index_in_range x n =
     (case x of Num i \<Rightarrow> 0 \<le> i \<and> i < int n | Frac i \<Rightarrow> 0 \<le> i \<and> i < int n | _ \<Rightarrow> False)"

text \<open>
  A list without its element at position \<open>n\<close>.
\<close>

definition remove_nth :: "nat \<Rightarrow> 'a list \<Rightarrow> 'a list" where
  "remove_nth n xs = take n xs @ drop (Suc n) xs"

text \<open>
  The positions of a marker character that stands at position 0 or right after a
  whitespace character, and the non-empty runs of non-whitespace characters that follow
  these positions, from left to right.
\<close>

definition marker_positions :: "jschar \<Rightarrow> jsstring \<Rightarrow> nat list" where
  "marker_positions m s =
     filter (\<lambda>i. s ! i = m \<and> (i = 0 \<or> is_space (s ! (i - 1)))) [0..<length s]"

definition marked_runs :: "jschar \<Rightarrow> jsstring \<Rightarrow> jsstring list" where
  "marked_runs m s =
     filter (\<lambda>g. g \<noteq> []) (map (\<lambda>i. run (drop (Suc i) s)) (marker_positions m s))"

text \<open>
  The same with the condition at position 0 given by \<open>b\<close>, for the proofs.
\<close>

definition marked_runs_from :: "jschar \<Rightarrow> bool \<Rightarrow> jsstring \<Rightarrow> jsstring list" where
  "marked_runs_from m b s =
     filter (\<lambda>g. g \<noteq> []) (map (\<lambda>i. run (drop (Suc i) s))
       (filter (\<lambda>i. s ! i = m \<and> (if i = 0 then b else is_space (s ! (i - 1)))) [0..<length s]))"

text \<open>
  The ten characters of a date as the regular expression reads them.
\<close>

definition date_body :: "jsstring \<Rightarrow> bool" where
  "date_body d \<longleftrightarrow> length d = 10 \<and> match_seq (butlast date_regex) d"

text \<open>
  The parts of a serialised record that come from the priority and from the dates.
\<close>

definition emit_priority :: "jsstring option \<Rightarrow> jsstring" where
  "emit_priority p =
     (case p of None \<Rightarrow> [] | Some p \<Rightarrow> if p \<noteq> [] then lit ''('' @ p @ lit '') '' else [])"

definition emit_dates :: "bool \<Rightarrow> jsstring option \<Rightarrow> jsstring option \<Rightarrow> jsstring" where
  "emit_dates c cd cr =
     (case cd of None \<Rightarrow> [] | Some d \<Rightarrow> if c \<and> d \<noteq> [] then d @ lit '' '' else []) @
     (case cr of None \<Rightarrow> [] | Some d \<Rightarrow> if d \<noteq> [] then d @ lit '' '' else [])"

text \<open>
  A text that is not empty and does not end with whitespace.
\<close>

definition ends_ok :: "jsstring \<Rightarrow> bool" where
  "ends_ok s \<longleftrightarrow> s \<noteq> [] \<and> \<not> is_space (last s)"

text \<open>
  A record of the data model: a priority or a date that is set is not the empty string.
\<close>

definition set_fields_nonempty :: "Todo \<Rightarrow> bool" where
  "set_fields_nonempty todo \<longleftrightarrow>
     priority todo \<noteq> Some [] \<and> completionDate todo \<noteq> Some [] \<and> creationDate todo \<noteq> Some []"

text \<open>
  Following the spec's words for claim C2: the parts of the serialisation in their order,
  each one emitted when its field is set.
\<close>

definition claimed_serialize :: "Todo \<Rightarrow> jsstring" where
  "claimed_serialize todo =
     (if completed todo then lit ''x '' else []) @
     (case priority todo of None \<Rightarrow> [] | Some p \<Rightarrow> lit ''('' @ p @ lit '') '') @
     (case completionDate todo of None \<Rightarrow> [] | Some d \<Rightarrow> if completed todo then d @ lit '' '' else []) @
     (case creationDate todo of None \<Rightarrow> [] | Some d \<Rightarrow> d @ lit '' '') @
     description todo"

text \<open>
  The value of \<^verbatim>\<open>remaining\<close> after the completion step of \<^verbatim>\<open>parseTodoLine\<close>, and after its
  priority step.
\<close>

definition after_completion :: "jsstring \<Rightarrow> jsstring" where
  "after_completion line = snd (parse_completion (trim line))"

definition after_priority :: "jsstring \<Rightarrow> jsstring" where
  "after_priority line = snd (parse_priority (after_completion line))"

text \<open>
  The priority prefix, position by position: \<^verbatim>\<open>(\<close>, an upper-case ASCII letter, \<^verbatim>\<open>)\<close> and
  one whitespace character.
\<close>

definition priority_prefix :: "jsstring \<Rightarrow> bool" where
  "priority_prefix s \<longleftrightarrow>
     4 \<le> length s \<and> s ! 0 = ch CHR ''('' \<and> is_upper (s ! 1) \<and> s ! 2 = ch CHR '')'' \<and>
     is_space (s ! 3)"

text \<open>
  Following the spec's words for claim C4: the character after the closing parenthesis
  must be the ASCII space.
\<close>

definition claimed_priority_prefix :: "jsstring \<Rightarrow> bool" where
  "claimed_priority_prefix s \<longleftrightarrow>
     4 \<le> length s \<and> s ! 0 = ch CHR ''('' \<and> is_upper (s ! 1) \<and> s ! 2 = ch CHR '')'' \<and>
     s ! 3 = ch CHR '' ''"

text \<open>
  The date format \<^verbatim>\<open>YYYY-MM-DD\<close>, and a date followed by one whitespace character at the head
  of a text.
\<close>

definition date_format :: "jsstring \<Rightarrow> bool" where
  "date_format d \<longleftrightarrow>
     length d = 10 \<and>
     is_digit (d ! 0) \<and> is_digit (d ! 1) \<and> is_digit (d ! 2) \<and> is_digit (d ! 3) \<and>
     d ! 4 = ch CHR ''-'' \<and> is_digit (d ! 5) \<and> is_digit (d ! 6) \<and>
     d ! 7 = ch CHR ''-'' \<and> is_digit (d ! 8) \<and> is_digit (d ! 9)"

definition date_prefix :: "jsstring \<Rightarrow> bool" where
  "date_prefix s \<longleftrightarrow> 11 \<le> length s \<and> date_format (take 10 s) \<and> is_space (s ! 10)"

text \<open>
  Following the spec's words for claim C3: the date is followed by one ASCII space.
\<close>

definition claimed_date_prefix :: "jsstring \<Rightarrow> bool" where
  "claimed_date_prefix s \<longleftrightarrow> 11 \<le> length s \<and> date_format (take 10 s) \<and> s ! 10 = ch CHR '' ''"

text \<open>
  The three prefix removals that give the description: \<^verbatim>\<open>"x "\<close> with the whitespace after
  it, the priority prefix, one or two date prefixes.
\<close>

definition strip_completion :: "jsstring \<Rightarrow> jsstring" where
  "strip_completion t =
     (if startsWith t (lit ''x '') then dropWhile is_space (drop 2 t) else t)"

text \<open>
  Following the spec's words for claim C5: only the two characters \<^verbatim>\<open>"x "\<close> are taken away.
\<close>

definition claimed_strip_completion :: "jsstring \<Rightarrow> jsstring" where
  "claimed_strip_completion t = (if startsWith t (lit ''x '') then drop 2 t else t)"

definition strip_priority :: "jsstring \<Rightarrow> jsstring" where
  "strip_priority r = (if priority_prefix r then drop 4 r else r)"

definition strip_dates :: "jsstring \<Rightarrow> jsstring" where
  "strip_dates r =
     (if date_prefix r then (if date_prefix (drop 11 r) then drop 22 r else drop 11 r) else r)"

text \<open>
  Following the spec's words for claim C7: a token is split at its first colon, and gives
  a tag when both sides are non-empty.
\<close>

definition first_colon_split :: "jsstring \<Rightarrow> (jsstring \<times> jsstring) option" where
  "first_colon_split t =
     (let k = takeWhile (\<lambda>x. x \<noteq> ch CHR '':'') t;
          v = drop 1 (dropWhile (\<lambda>x. x \<noteq> ch CHR '':'') t)
      in if k \<noteq> [] \<and> v \<noteq> [] then Some (k, v) else None)"

text \<open>
  Following the spec's words for claim C7: the tags of a trimmed line, the later token
  winning for a key.
\<close>

definition claimed_tags :: "jsstring \<Rightarrow> (jsstring \<rightharpoonup> jsstring)" where
  "claimed_tags trimmed =
     map_of (rev (List.map_filter
       (\<lambda>t. if startsWith t (lit ''+'') \<or> startsWith t (lit ''@'') then None
            else first_colon_split t)
       (tokens trimmed)))"


section \<open>Auxiliary facts\<close>

text \<open>A decision tree for \<open>is_space\<close>, for evaluation.\<close>

lemma is_space_code [code]:
  "is_space c =
     (if c < 0x21 then c = 0x20 \<or> (0x09 \<le> c \<and> c \<le> 0x0D)
      else if c < 0xA0 then False
      else c = 0xA0 \<or> c = 0x1680 \<or> (0x2000 \<le> c \<and> c \<le> 0x200A) \<or> c = 0x2028 \<or> c = 0x2029 \<or>
           c = 0x202F \<or> c = 0x205F \<or> c = 0x3000 \<or> c = 0xFEFF)"
  unfolding is_space_def word_unat_eq_iff word_le_nat_alt word_less_nat_alt
  by simp arith

subsection \<open>Tokens\<close>

lemma split_when_not_Nil [simp]: "split_when P s \<noteq> []"
  by (induction s) (auto split: list.splits)

lemma split_when_unfold:
  "split_when P s =
     takeWhile (\<lambda>c. \<not> P c) s #
       (case dropWhile (\<lambda>c. \<not> P c) s of [] \<Rightarrow> [] | w # r \<Rightarrow> split_when P r)"
  by (induction s) auto

lemma split_when_append:
  "P w \<Longrightarrow> split_when P (a @ w # b) = split_when P a @ split_when P b"
  by (induction a) (auto split: list.splits)

lemma tokens_Nil [simp]: "tokens [] = []"
  by (simp add: tokens_def)

lemma tokens_space [simp]: "is_space w \<Longrightarrow> tokens (w # s) = tokens s"
  by (simp add: tokens_def)

lemma tokens_append_space:
  "is_space w \<Longrightarrow> tokens (a @ w # b) = tokens a @ tokens b"
  by (simp add: tokens_def split_when_append)

lemma run_Nil [simp]: "run [] = []"
  by (simp add: run_def)

lemma after_run_Nil [simp]: "after_run [] = []"
  by (simp add: after_run_def)

lemma after_run_idem [simp]: "after_run (after_run s) = after_run s"
  by (induction s) (auto simp: after_run_def)

lemma run_Cons: "run (c # cs) = (if is_space c then [] else c # run cs)"
  by (simp add: run_def)

lemma after_run_Cons: "after_run (c # cs) = (if is_space c then c # cs else after_run cs)"
  by (simp add: after_run_def)

lemma run_after_run [simp]: "run s @ after_run s = s"
  by (simp add: run_def after_run_def)

lemma tokens_nonspace:
  "\<not> is_space c \<Longrightarrow> tokens (c # cs) = (c # run cs) # tokens (after_run cs)"
proof -
  assume c: "\<not> is_space c"
  have "split_when is_space (c # cs) =
     (c # run cs) # (case after_run cs of [] \<Rightarrow> [] | w # r \<Rightarrow> split_when is_space r)"
    using c by (subst split_when_unfold) (simp add: run_def after_run_def)
  moreover have "filter (\<lambda>t. t \<noteq> []) (case after_run cs of [] \<Rightarrow> [] | w # r \<Rightarrow> split_when is_space r)
      = tokens (after_run cs)"
  proof (cases "after_run cs")
    case Nil
    then show ?thesis by simp
  next
    case (Cons w r)
    then have "is_space w"
      using hd_dropWhile[of "\<lambda>c. \<not> is_space c" cs] by (simp add: after_run_def)
    with Cons show ?thesis by (simp add: tokens_def)
  qed
  ultimately show ?thesis by (simp add: tokens_def)
qed

lemma tokens_run:
  "tokens s = (if run s = [] then tokens (after_run s) else run s # tokens (after_run s))"
  by (cases s) (auto simp: run_Cons after_run_Cons tokens_nonspace)

subsection \<open>The scan for projects and contexts, token by token\<close>

lemma map_filter_Cons:
  "List.map_filter f (x # xs) = (case f x of None \<Rightarrow> List.map_filter f xs | Some y \<Rightarrow> y # List.map_filter f xs)"
  by (simp add: List.map_filter_def split: option.splits)

lemma marked_None_skip:
  assumes "match_marker m s = None"
  shows "List.map_filter (marked m) (tokens s) = List.map_filter (marked m) (tokens (after_run s))"
proof (cases "run s = []")
  case True
  then show ?thesis by (subst tokens_run) simp
next
  case False
  then obtain c cs where s: "s = c # cs" and c: "\<not> is_space c"
    by (cases s) (auto simp: run_Cons split: if_splits)
  with assms have "marked m (c # run cs) = None"
    by (auto simp: match_marker_def marked_def split: if_splits)
  with s c show ?thesis
    by (simp add: tokens_nonspace map_filter_Cons after_run_Cons)
qed

lemma marked_Cons: "marked m (c # g) = (if c = m \<and> g \<noteq> [] then Some g else None)"
  by (simp add: marked_def)

lemma match_marker_SomeD:
  assumes "match_marker m s = Some (g, rest)" and "\<not> is_space m"
  shows "tokens s = (m # g) # tokens rest" and "after_run rest = rest" and "g \<noteq> []"
  using assms
  by (auto simp: match_marker_def tokens_nonspace split: list.splits if_splits)

lemma match_boundary_marker_SomeD:
  assumes "match_boundary_marker m b (c # cs) = Some (g, rest)"
  shows "(b \<and> match_marker m (c # cs) = Some (g, rest)) \<or>
         (is_space c \<and> match_marker m cs = Some (g, rest))"
  using assms
  by (auto simp: match_boundary_marker_def split: option.splits if_splits)

lemma match_boundary_marker_NoneD:
  assumes "match_boundary_marker m b (c # cs) = None"
  shows "b \<Longrightarrow> match_marker m (c # cs) = None" and "is_space c \<Longrightarrow> match_marker m cs = None"
  using assms
  by (auto simp: match_boundary_marker_def split: option.splits if_splits)

lemma matchAll_marker_tokens_aux:
  "\<not> is_space m \<Longrightarrow> matchAll_marker m b s =
     List.map_filter (marked m) (tokens (if b then s else after_run s))"
proof (induction m b s rule: matchAll_marker.induct)
  case (1 m at_start)
  then show ?case by (simp add: List.map_filter_def)
next
  case (2 m at_start c cs)
  show ?case
  proof (cases "match_boundary_marker m at_start (c # cs)")
    case None
    have IH: "matchAll_marker m False cs = List.map_filter (marked m) (tokens (after_run cs))"
      using "2.IH"(1)[OF None] "2.prems" by simp
    show ?thesis
    proof (cases "is_space c")
      case True
      with None have "match_marker m cs = None"
        by (rule match_boundary_marker_NoneD(2))
      from marked_None_skip[OF this] None IH True show ?thesis
        by (simp add: after_run_Cons)
    next
      case False
      show ?thesis
      proof (cases at_start)
        case True
        with None have "match_marker m (c # cs) = None"
          by (simp add: match_boundary_marker_NoneD(1))
        from marked_None_skip[OF this] None IH False True show ?thesis
          by (simp add: after_run_Cons)
      next
        case False
        with None IH \<open>\<not> is_space c\<close> show ?thesis
          by (simp add: after_run_Cons)
      qed
    qed
  next
    case (Some x)
    obtain g rest where x: "x = (g, rest)"
      by (cases x)
    have IH: "matchAll_marker m False rest = List.map_filter (marked m) (tokens (after_run rest))"
      using "2.IH"(2)[OF Some x[symmetric]] "2.prems" by simp
    from Some x consider
      (start) "at_start" "match_marker m (c # cs) = Some (g, rest)" |
      (space) "is_space c" "match_marker m cs = Some (g, rest)"
      using match_boundary_marker_SomeD by blast
    then show ?thesis
    proof cases
      case start
      from match_marker_SomeD[OF start(2) "2.prems"] Some x IH start(1) show ?thesis
        by (simp add: map_filter_Cons marked_Cons)
    next
      case space
      from match_marker_SomeD[OF space(2) "2.prems"] Some x IH space(1) show ?thesis
        by (simp add: map_filter_Cons marked_Cons after_run_Cons)
    qed
  qed
qed

lemma collect_marked_tokens:
  "\<not> is_space m \<Longrightarrow> collect_marked m s = List.map_filter (marked m) (tokens s)"
proof -
  assume m: "\<not> is_space m"
  have fold: "foldl (\<lambda>acc g. if g \<noteq> [] then acc @ [g] else acc) acc gs = acc @ filter (\<lambda>g. g \<noteq> []) gs"
    for acc and gs :: "jsstring list"
    by (induction gs arbitrary: acc) auto
  have "filter (\<lambda>g. g \<noteq> []) (List.map_filter (marked m) ts) = List.map_filter (marked m) ts" for ts
    by (induction ts) (auto simp: map_filter_Cons marked_def List.map_filter_def split: list.splits option.splits if_splits)
  then show ?thesis
    by (simp add: collect_marked_def fold matchAll_marker_tokens_aux[OF m])
qed

subsection \<open>The scan for tags, token by token\<close>

lemma colon_not_space [simp]: "\<not> is_space 58"
  by (simp add: is_space_def)

lemma lazy_key_run:
  "lazy_key key s =
     (let v = drop 1 (dropWhile (\<lambda>x. x \<noteq> 58) (run s))
      in if v \<noteq> [] then Some (key @ takeWhile (\<lambda>x. x \<noteq> 58) (run s), v, after_run s) else None)"
proof (induction key s rule: lazy_key.induct)
  case (1 key)
  then show ?case by simp
next
  case (2 key c cs)
  then show ?case
    by (auto simp: run_Cons after_run_Cons Let_def)
qed

lemma match_tag_split_tag:
  "\<not> is_space c \<Longrightarrow>
   match_tag (c # cs) = map_option (\<lambda>(k, v). (k, v, after_run cs)) (split_tag (c # run cs))"
  by (simp add: match_tag_def lazy_key_run split_tag_def Let_def)

lemma split_tag_tl: "split_tag (c # t) = None \<Longrightarrow> split_tag t = None"
  by (cases t) (auto simp: split_tag_def Let_def split: if_splits)

lemma split_tag_SomeD: "split_tag t = Some (k, v) \<Longrightarrow> t = k @ 58 # v \<and> k \<noteq> [] \<and> v \<noteq> []"
proof -
  assume a: "split_tag t = Some (k, v)"
  then obtain c r where t: "t = c # r" by (cases t) (auto simp: split_tag_def)
  let ?d = "dropWhile (\<lambda>x. x \<noteq> 58) r"
  from a t have k: "k = c # takeWhile (\<lambda>x. x \<noteq> 58) r" and v: "v = drop 1 ?d" and ne: "v \<noteq> []"
    by (auto simp: split_tag_def Let_def split: if_splits)
  from v ne obtain w where d: "?d = w # v" by (cases ?d) auto
  then have "w = 58" using hd_dropWhile[of "\<lambda>x. x \<noteq> 58" r] by auto
  with d have "r = takeWhile (\<lambda>x. x \<noteq> 58) r @ 58 # v"
    using takeWhile_dropWhile_id[of "\<lambda>x. x \<noteq> 58" r] by simp
  with t k ne show ?thesis by simp
qed

lemma matchAll_tag_tokens: "matchAll_tag s = List.map_filter tag_match (tokens s)"
proof (induction s rule: matchAll_tag.induct)
  case 1
  then show ?case by (simp add: List.map_filter_def)
next
  case (2 c cs)
  show ?case
  proof (cases "match_tag (c # cs)")
    case None
    have IH: "matchAll_tag cs = List.map_filter tag_match (tokens cs)"
      using "2.IH"(1)[OF None] .
    show ?thesis
    proof (cases "is_space c")
      case True
      with None IH show ?thesis by simp
    next
      case False
      with None have n: "split_tag (c # run cs) = None"
        by (simp add: match_tag_split_tag)
      then have "split_tag (run cs) = None"
        by (rule split_tag_tl)
      then have "tag_match (run cs) = None"
        by (simp add: tag_match_def)
      then have skip: "List.map_filter tag_match (tokens cs) =
          List.map_filter tag_match (tokens (after_run cs))"
        by (subst tokens_run) (simp add: map_filter_Cons)
      from n have "tag_match (c # run cs) = None"
        by (simp add: tag_match_def)
      with None IH False skip show ?thesis
        by (simp add: tokens_nonspace map_filter_Cons)
    qed
  next
    case (Some x)
    obtain k v rest where x: "x = (k, v, rest)"
      by (cases x)
    have IH: "matchAll_tag rest = List.map_filter tag_match (tokens rest)"
      using "2.IH"(2)[OF Some] x by simp
    from Some x have c: "\<not> is_space c"
      by (auto simp: match_tag_def split: if_splits)
    with Some x have st: "split_tag (c # run cs) = Some (k, v)" and rest: "rest = after_run cs"
      by (auto simp: match_tag_split_tag)
    from split_tag_SomeD[OF st] have "k @ 58 # v = c # run cs"
      by simp
    moreover from st have "tag_match (c # run cs) = Some (c # run cs, k, v)"
      by (simp add: tag_match_def)
    ultimately show ?thesis
      using Some x IH c rest by (simp add: tokens_nonspace map_filter_Cons)
  qed
qed

lemma tag_step_tag_match:
  "tag_match t = Some m \<Longrightarrow>
   tag_step tgs m = (case tag_of_token t of None \<Rightarrow> tgs | Some (k, v) \<Rightarrow> obj_set tgs k v)"
  by (auto simp: tag_match_def tag_step_def tag_of_token_def dest: split_tag_SomeD)

lemma foldl_tag_step:
  "foldl tag_step tgs (List.map_filter tag_match ts) =
   foldl (\<lambda>m (k, v). obj_set m k v) tgs (List.map_filter tag_of_token ts)"
proof (induction ts arbitrary: tgs)
  case Nil
  then show ?case by (simp add: List.map_filter_def)
next
  case (Cons t ts)
  show ?case
  proof (cases "tag_match t")
    case None
    then have "tag_of_token t = None"
      by (simp add: tag_match_def tag_of_token_def)
    with None Cons show ?thesis by (simp add: map_filter_Cons)
  next
    case (Some m)
    from tag_step_tag_match[OF this] Some Cons show ?thesis
      by (simp add: map_filter_Cons split: option.splits)
  qed
qed

lemma foldl_obj_set:
  "foldl (\<lambda>m (k, v). obj_set m k v) tgs ps key =
     (if key = lit ''__proto__'' then tgs key
      else case map_of (rev ps) key of None \<Rightarrow> tgs key | Some v \<Rightarrow> Some v)"
  by (induction ps arbitrary: tgs) (auto simp: obj_set_def split: option.splits)

lemma collect_tags_tokens:
  "collect_tags s key =
     (if key = lit ''__proto__'' then None
      else map_of (rev (List.map_filter tag_of_token (tokens s))) key)"
  by (simp add: collect_tags_def matchAll_tag_tokens foldl_tag_step foldl_obj_set split: option.splits)

subsection \<open>Character classes and trimming\<close>

lemma digit_not_space: "is_digit c \<Longrightarrow> \<not> is_space c"
  unfolding is_digit_def is_space_def
  by (auto simp: word_le_nat_alt word_less_nat_alt)

lemma upper_not_space: "is_upper c \<Longrightarrow> \<not> is_space c"
  unfolding is_upper_def is_space_def
  by (auto simp: word_le_nat_alt word_less_nat_alt)

lemma digit_not_special:
  "is_digit c \<Longrightarrow> c \<noteq> 40 \<and> c \<noteq> 120 \<and> c \<noteq> 43 \<and> c \<noteq> 64 \<and> c \<noteq> 58 \<and> c \<noteq> 45"
  unfolding is_digit_def
  by (auto simp: word_le_nat_alt word_less_nat_alt)

lemma space_32 [simp]: "is_space 32"
  by (simp add: is_space_def)

lemma not_space_chars [simp]:
  "\<not> is_space 40" "\<not> is_space 41" "\<not> is_space 120" "\<not> is_space 43" "\<not> is_space 64" "\<not> is_space 45"
  by (simp_all add: is_space_def)

lemma trim_split:
  "\<exists>a b. s = a @ trim s @ b \<and> list_all is_space a \<and> list_all is_space b"
proof -
  let ?l = "dropWhile is_space s"
  have 1: "s = takeWhile is_space s @ ?l" by simp
  have 2: "?l = trim s @ rev (takeWhile is_space (rev ?l))"
    unfolding trim_def
    by (metis rev_append rev_rev_ident takeWhile_dropWhile_id)
  have "list_all is_space (takeWhile is_space s)"
    by (auto simp: list_all_iff dest: set_takeWhileD)
  moreover have "list_all is_space (rev (takeWhile is_space (rev ?l)))"
    by (auto simp: list_all_iff dest: set_takeWhileD)
  ultimately show ?thesis using 1 2 by metis
qed

lemma trim_is_trimmed: "is_trimmed (trim s)"
proof (cases "trim s")
  case Nil
  then show ?thesis by (simp add: is_trimmed_def)
next
  case (Cons c r)
  let ?l = "dropWhile is_space s"
  let ?r = "dropWhile is_space (rev ?l)"
  from Cons have ne: "?r \<noteq> []" by (auto simp: trim_def)
  then have "\<not> is_space (hd ?r)" by (rule hd_dropWhile)
  then have last: "\<not> is_space (last (trim s))"
    using ne by (simp add: trim_def last_rev)
  from ne have "?l \<noteq> []" by (metis dropWhile.simps(1) rev.simps(1))
  then have "\<not> is_space (hd ?l)" by (rule hd_dropWhile)
  have "hd (trim s) = hd ?l"
  proof -
    have "trim s @ rev (takeWhile is_space (rev ?l)) = ?l"
      unfolding trim_def by (metis rev_append rev_rev_ident takeWhile_dropWhile_id)
    with Cons show ?thesis by (metis hd_append2 list.distinct(1))
  qed
  with \<open>\<not> is_space (hd ?l)\<close> Cons last show ?thesis
    by (auto simp: is_trimmed_def split: if_splits)
qed

lemma trim_id: "is_trimmed s \<Longrightarrow> trim s = s"
proof (cases s)
  case Nil
  then show ?thesis by (simp add: trim_def)
next
  case (Cons c r)
  assume "is_trimmed s"
  with Cons have c: "\<not> is_space c" and l: "\<not> is_space (last s)"
    by (simp_all add: is_trimmed_def)
  from c Cons have 1: "dropWhile is_space s = s" by simp
  from Cons have "s \<noteq> []" by simp
  then have "hd (rev s) = last s" by (simp add: hd_rev)
  with l have "dropWhile is_space (rev s) = rev s"
    by (simp only: dropWhile_eq_self_iff) simp
  with 1 show ?thesis by (simp add: trim_def)
qed

lemma tokens_all_space: "list_all is_space ws \<Longrightarrow> tokens ws = []"
  by (induction ws) auto

lemma tokens_drop_space: "list_all is_space ws \<Longrightarrow> tokens (ws @ s) = tokens s"
  by (induction ws) auto

lemma tokens_append_spaces: "list_all is_space ws \<Longrightarrow> tokens (a @ ws) = tokens a"
proof (induction ws arbitrary: a)
  case Nil
  then show ?case by simp
next
  case (Cons w ws)
  then show ?case
    by (simp add: tokens_append_space tokens_all_space)
qed

lemma tokens_trim: "tokens (trim s) = tokens s"
proof -
  obtain a b where "s = a @ trim s @ b" "list_all is_space a" "list_all is_space b"
    using trim_split by blast
  then show ?thesis
    by (metis tokens_drop_space tokens_append_spaces)
qed

subsection \<open>Lists of records\<close>

lemma parseTodoTxt_map: "parseTodoTxt text = map parseTodoLine (nonblank_lines text)"
proof -
  have "foldl (\<lambda>todos line. if length (trim line) > 0 then todos @ [parseTodoLine line] else todos) acc ls
      = acc @ map parseTodoLine (filter (\<lambda>line. trim line \<noteq> []) ls)" for acc ls
    by (induction ls arbitrary: acc) auto
  then show ?thesis
    by (simp add: parseTodoTxt_def nonblank_lines_def)
qed

lemma filter_index_above:
  "i < int n \<Longrightarrow> map snd (filter (\<lambda>(index, _). Num (int index) \<noteq> Num i) (enumerate n xs)) = xs"
  by (induction xs arbitrary: n) auto

lemma filter_index_enumerate:
  "int n \<le> i \<Longrightarrow>
   map snd (filter (\<lambda>(index, _). Num (int index) \<noteq> Num i) (enumerate n xs))
     = remove_nth (nat i - n) xs"
proof (induction xs arbitrary: n)
  case Nil
  then show ?case by (simp add: remove_nth_def)
next
  case (Cons x xs)
  show ?case
  proof (cases "int n = i")
    case True
    then have "i < int (Suc n)" by simp
    from filter_index_above[OF this] True show ?thesis
      by (simp add: remove_nth_def)
  next
    case False
    with Cons.prems have lt: "int (Suc n) \<le> i" by simp
    then have "nat i - n = Suc (nat i - Suc n)" by linarith
    with Cons.IH[OF lt] False show ?thesis
      by (simp add: remove_nth_def)
  qed
qed

lemma filter_index_remove_nth: "0 \<le> i \<Longrightarrow> filter_index (Num i) xs = remove_nth (nat i) xs"
  using filter_index_enumerate[of 0 i xs] by (simp add: filter_index_def)

lemma filter_index_keep_all:
  "(\<And>i. x \<noteq> Num i) \<Longrightarrow>
   map snd (filter (\<lambda>(index, _). Num (int index) \<noteq> x) (enumerate n xs)) = xs"
  by (induction xs arbitrary: n) auto

lemma filter_index_not_integer: "(\<And>i. x \<noteq> Num i) \<Longrightarrow> filter_index x xs = xs"
  by (simp add: filter_index_def filter_index_keep_all)

subsection \<open>Markers by position\<close>

lemma marked_runs_from_True: "marked_runs m s = marked_runs_from m True s"
  unfolding marked_runs_def marked_runs_from_def marker_positions_def
  by (rule arg_cong[where f="\<lambda>p. filter _ (map _ (filter p _))"]) auto

lemma marked_runs_from_Nil [simp]: "marked_runs_from m b [] = []"
  by (simp add: marked_runs_from_def)

lemma marked_runs_from_Cons:
  "marked_runs_from m b (c # cs) =
     (if c = m \<and> b \<and> run cs \<noteq> [] then [run cs] else []) @ marked_runs_from m (is_space c) cs"
proof -
  let ?P = "\<lambda>i. (c # cs) ! i = m \<and> (if i = 0 then b else is_space ((c # cs) ! (i - 1)))"
  let ?Q = "\<lambda>i. cs ! i = m \<and> (if i = 0 then is_space c else is_space (cs ! (i - 1)))"
  let ?f = "\<lambda>i. run (drop (Suc i) (c # cs))"
  let ?g = "\<lambda>i. run (drop (Suc i) cs)"
  have upt: "[0..<length (c # cs)] = 0 # map Suc [0..<length cs]"
    by (simp add: upt_conv_Cons map_Suc_upt del: upt_Suc)
  have PQ: "?P \<circ> Suc = ?Q"
  proof (rule ext)
    fix i show "(?P \<circ> Suc) i = ?Q i" by (cases i) auto
  qed
  have fg: "?f \<circ> Suc = ?g"
    by (rule ext) simp
  have "filter ?P [0..<length (c # cs)] =
      (if c = m \<and> b then [0] else []) @ map Suc (filter ?Q [0..<length cs])"
    unfolding upt by (simp only: filter.simps filter_map PQ) simp
  then have "map ?f (filter ?P [0..<length (c # cs)]) =
      (if c = m \<and> b then [run cs] else []) @ map ?g (filter ?Q [0..<length cs])"
    by (simp only: map_append map_map fg) simp
  then show ?thesis
    unfolding marked_runs_from_def by (simp only: filter_append) simp
qed

lemma marked_runs_from_tokens:
  "\<not> is_space m \<Longrightarrow>
   marked_runs_from m b s = List.map_filter (marked m) (tokens (if b then s else after_run s))"
proof (induction s arbitrary: b)
  case Nil
  then show ?case by (simp add: List.map_filter_def)
next
  case (Cons c cs)
  show ?case
  proof (cases "is_space c")
    case True
    with Cons.prems have "c \<noteq> m" by auto
    with True Cons.IH[OF Cons.prems, of True] show ?thesis
      by (simp add: marked_runs_from_Cons after_run_Cons)
  next
    case False
    with Cons.IH[OF Cons.prems, of False] Cons.prems show ?thesis
      by (cases b) (auto simp: marked_runs_from_Cons after_run_Cons tokens_nonspace map_filter_Cons marked_Cons)
  qed
qed

lemma plus_at_not_space: "\<not> is_space (ch CHR ''+'')" "\<not> is_space (ch CHR ''@'')"
  by simp_all

lemma parseTodoLine_projects: "projects (parseTodoLine line) = collect_marked (ch CHR ''+'') (trim line)"
  by (simp add: parseTodoLine_def Let_def split_def)

lemma parseTodoLine_contexts: "contexts (parseTodoLine line) = collect_marked (ch CHR ''@'') (trim line)"
  by (simp add: parseTodoLine_def Let_def split_def)

lemma collect_marked_runs: "\<not> is_space m \<Longrightarrow> collect_marked m s = marked_runs m s"
  by (simp add: collect_marked_tokens marked_runs_from_True marked_runs_from_tokens)

lemma projects_double: "projects (parseTodoLine (lit ''++double'')) = [lit ''+double'']"
  by code_simp

lemma projects_inline: "projects (parseTodoLine (lit ''Task+inline'')) = []"
  by code_simp

lemma contexts_email: "contexts (parseTodoLine (lit ''email@example.com'')) = []"
  by code_simp

lemma projects_order_dups:
  "projects (parseTodoLine (lit ''(A) 2024-01-01 +b do +a and +b'')) = [lit ''b'', lit ''a'', lit ''b'']"
  by code_simp

section \<open>Projects and contexts\<close>

text \<open>
  Claim C6. For every input line, \<open>projects\<close> lists, from left to right and with
  duplicates kept, the non-empty greedy run of non-whitespace characters after every
  \<^verbatim>\<open>+\<close> that stands at position 0 of the trimmed line or right after a whitespace
  character; \<open>contexts\<close> does the same for \<^verbatim>\<open>@\<close>. The scan reads the whole trimmed
  line, whatever prefix the completion, priority and date steps consume. So
  \<^verbatim>\<open>++double\<close> gives the project \<^verbatim>\<open>+double\<close>, \<^verbatim>\<open>Task+inline\<close> gives no project and
  \<^verbatim>\<open>email@example.com\<close> gives no context.
\<close>

theorem projects_contexts_scan:
  "projects (parseTodoLine line) = marked_runs (ch CHR ''+'') (trim line) \<and>
   contexts (parseTodoLine line) = marked_runs (ch CHR ''@'') (trim line) \<and>
   projects (parseTodoLine (lit ''++double'')) = [lit ''+double''] \<and>
   projects (parseTodoLine (lit ''Task+inline'')) = [] \<and>
   contexts (parseTodoLine (lit ''email@example.com'')) = [] \<and>
   projects (parseTodoLine (lit ''(A) 2024-01-01 +b do +a and +b'')) = [lit ''b'', lit ''a'', lit ''b'']"
proof -
  have p: "projects (parseTodoLine line) = marked_runs (ch CHR ''+'') (trim line)"
    by (simp add: parseTodoLine_projects collect_marked_runs)
  have c: "contexts (parseTodoLine line) = marked_runs (ch CHR ''@'') (trim line)"
    by (simp add: parseTodoLine_contexts collect_marked_runs)
  show ?thesis
    by (intro conjI p c projects_double projects_inline contexts_email projects_order_dups)
qed

theorem projects_contexts_scan_witness:
  "projects (parseTodoLine (lit '' x (B) +home call @phone +home ''))
     = marked_runs (ch CHR ''+'') (lit ''x (B) +home call @phone +home'') \<and>
   marked_runs (ch CHR ''+'') (lit ''x (B) +home call @phone +home'') = [lit ''home'', lit ''home''] \<and>
   contexts (parseTodoLine (lit '' x (B) +home call @phone +home '')) = [lit ''phone'']"
proof -
  have t: "trim (lit '' x (B) +home call @phone +home '') = lit ''x (B) +home call @phone +home''"
    by code_simp
  have p: "marked_runs (ch CHR ''+'') (lit ''x (B) +home call @phone +home'') = [lit ''home'', lit ''home'']"
    by code_simp
  have c: "marked_runs (ch CHR ''@'') (lit ''x (B) +home call @phone +home'') = [lit ''phone'']"
    by code_simp
  from projects_contexts_scan[of "lit '' x (B) +home call @phone +home ''"] show ?thesis
    by (simp only: t p c)
qed

section \<open>The buffer operations at their bounds\<close>

text \<open>
  For an empty text both operations return the empty text, whatever the index is. For a
  text that is not empty and a number outside the range of the parsed records, a negative
  one, a fraction or an infinity included, both return the text as it was given; and
  \<^verbatim>\<open>deleteTaskAtLine\<close> returns the empty string when it deletes the only record. The one
  index for which this does not hold is \<^verbatim>\<open>NaN\<close>: see the next theorem.
\<close>

lemma bounds_kept:
  "updateTaskAtLine [] x u = [] \<and>
   deleteTaskAtLine [] x = [] \<and>
   (x \<noteq> NaN \<and> \<not> index_in_range x (length (parseTodoTxt content)) \<longrightarrow>
      updateTaskAtLine content x u = content \<and> deleteTaskAtLine content x = content) \<and>
   (length (parseTodoTxt content) = 1 \<longrightarrow> deleteTaskAtLine content (Num 0) = [])"
proof -
  have 1: "length (parseTodoTxt content) = 1 \<Longrightarrow> filter_index (Num 0) (parseTodoTxt content) = []"
    by (cases "parseTodoTxt content") (auto simp: filter_index_remove_nth remove_nth_def)
  have 2: "x \<noteq> NaN \<Longrightarrow> \<not> index_in_range x n \<Longrightarrow> num_less x 0 \<or> num_ge x (int n)" for n
    by (cases x) (auto simp: index_in_range_def num_less_def num_ge_def)
  have 3: "updateTaskAtLine content x u = content \<and> deleteTaskAtLine content x = content"
    if "x \<noteq> NaN" "\<not> index_in_range x (length (parseTodoTxt content))"
    using 2[OF that] by (auto simp: updateTaskAtLine_def deleteTaskAtLine_def Let_def)
  have 4: "length (parseTodoTxt content) = 1 \<Longrightarrow> deleteTaskAtLine content (Num 0) = []"
    using 1 by (auto simp: deleteTaskAtLine_def Let_def num_less_def num_ge_def)
  from 3 4 show ?thesis
    by (simp add: updateTaskAtLine_def deleteTaskAtLine_def)
qed

lemma bounds_kept_examples:
  "updateTaskAtLine (lit ''(A) 2026-01-01 Call Mom'') (Num 5) \<lparr>completed = False, priority = None,
       completionDate = None, creationDate = None, description = lit ''Buy milk'', projects = [],
       contexts = [], tags = Map.empty, raw = []\<rparr> = lit ''(A) 2026-01-01 Call Mom'' \<and>
   deleteTaskAtLine (lit ''(A) 2026-01-01 Call Mom'') (Num (- 1)) = lit ''(A) 2026-01-01 Call Mom'' \<and>
   deleteTaskAtLine (lit ''(A) 2026-01-01 Call Mom'') (Frac (- 1)) = lit ''(A) 2026-01-01 Call Mom'' \<and>
   deleteTaskAtLine (lit ''(A) 2026-01-01 Call Mom'') (Num 0) = []"
proof -
  let ?c = "lit ''(A) 2026-01-01 Call Mom''"
  have len: "length (parseTodoTxt ?c) = 1" by code_simp
  show ?thesis
    using bounds_kept[of "Num 5" _ ?c] bounds_kept[of "Num (- 1)" _ ?c]
      bounds_kept[of "Frac (- 1)" _ ?c] len
    by (simp add: index_in_range_def)
qed

text \<open>
  For an index that passes the bounds test without being an integer (\<^verbatim>\<open>NaN\<close>, or a fraction
  in range) both operations return every record serialised again, none replaced and none
  removed.
\<close>

lemma rerendered_not_integer:
  assumes "content \<noteq> []" and "\<And>i. x \<noteq> Num i"
    and "\<not> num_less x 0" and "\<not> num_ge x (int (length (parseTodoTxt content)))"
  shows "updateTaskAtLine content x u =
           join nl (map (\<lambda>line. serializeTodo (parseTodoLine line)) (nonblank_lines content))"
    and "deleteTaskAtLine content x =
           join nl (map (\<lambda>line. serializeTodo (parseTodoLine line)) (nonblank_lines content))"
proof -
  have a: "array_set todos x u = todos" for todos
  proof (cases x)
    case (Num i)
    with assms(2)[of i] show ?thesis by simp
  qed (simp_all add: array_set_def)
  from assms(3,4) have b: "\<not> num_ge x (int (length (map parseTodoLine (nonblank_lines content))))"
    by (simp add: parseTodoTxt_map)
  from assms(1,3,4) show "updateTaskAtLine content x u =
      join nl (map (\<lambda>line. serializeTodo (parseTodoLine line)) (nonblank_lines content))"
    by (simp add: updateTaskAtLine_def updateTodoInList_def Let_def a parseTodoTxt_map comp_def)
  from assms(1,3,4) show "deleteTaskAtLine content x =
      join nl (map (\<lambda>line. serializeTodo (parseTodoLine line)) (nonblank_lines content))"
    by (simp add: deleteTaskAtLine_def Let_def filter_index_not_integer[OF assms(2)]
        parseTodoTxt_map comp_def)
qed

text \<open>
  Claim C8. \<^verbatim>\<open>updateTaskAtLine\<close> returns the empty text for an empty text whatever the
  index is, and for a text that is not empty and an index outside the range of the parsed
  records it returns the text as it was given; \<^verbatim>\<open>deleteTaskAtLine\<close> returns the empty text
  for an empty text, the text as it was given for every index out of range, and the empty
  string when the only record is deleted. The code departs from this at the index
  \<^verbatim>\<open>NaN\<close>, which is a \<^verbatim>\<open>number\<close> outside every range: \<^verbatim>\<open>NaN < 0\<close> and
  \<^verbatim>\<open>NaN >= todos.length\<close> are both false, so the bounds test lets it through, and the text
  \<^verbatim>\<open>" a \n\nb"\<close> of two records comes back as \<^verbatim>\<open>"a\nb"\<close> from both operations, not as it was
  given.
\<close>

theorem bounds_nan_rerenders:
  "\<not> index_in_range NaN (length (parseTodoTxt (lit '' a '' @ nl @ nl @ lit ''b''))) \<and>
   updateTaskAtLine (lit '' a '' @ nl @ nl @ lit ''b'') NaN
     \<lparr>completed = False, priority = None, completionDate = None, creationDate = None,
      description = lit ''Buy milk'', projects = [], contexts = [], tags = Map.empty, raw = []\<rparr>
     = lit ''a'' @ nl @ lit ''b'' \<and>
   deleteTaskAtLine (lit '' a '' @ nl @ nl @ lit ''b'') NaN = lit ''a'' @ nl @ lit ''b'' \<and>
   lit ''a'' @ nl @ lit ''b'' \<noteq> lit '' a '' @ nl @ nl @ lit ''b''"
proof -
  let ?c = "lit '' a '' @ nl @ nl @ lit ''b''"
  let ?u = "\<lparr>completed = False, priority = None, completionDate = None, creationDate = None,
      description = lit ''Buy milk'', projects = [], contexts = [], tags = Map.empty, raw = []\<rparr>"
  have 1: "\<not> index_in_range NaN (length (parseTodoTxt ?c))"
    by (simp add: index_in_range_def)
  have 2: "updateTaskAtLine ?c NaN ?u = lit ''a'' @ nl @ lit ''b''"
    by code_simp
  have 3: "deleteTaskAtLine ?c NaN = lit ''a'' @ nl @ lit ''b''"
    by code_simp
  have 4: "lit ''a'' @ nl @ lit ''b'' \<noteq> ?c"
    by (simp add: lit_def nl_def)
  from 1 2 3 4 show ?thesis by (intro conjI)
qed

section \<open>What an update or a deletion does to the other lines\<close>

text \<open>
  Claim C10. When \<^verbatim>\<open>updateTaskAtLine\<close> or \<^verbatim>\<open>deleteTaskAtLine\<close> acts on an index in range
  of a text that is not empty, the result is built from the parsed records only: blank lines
  are gone, and every line that stays appears as \<^verbatim>\<open>serializeTodo(parseTodoLine(line))\<close>, not as
  it was written. In the example below the line \<^verbatim>\<open>"  ab "\<close> comes back as \<^verbatim>\<open>"ab"\<close> and
  \<^verbatim>\<open>"x    c"\<close> as \<^verbatim>\<open>"x c"\<close>, and the blank line and the final line feed are dropped.
\<close>

theorem buffer_rewritten:
  assumes "content \<noteq> []" and "0 \<le> i" and "i < int (length (parseTodoTxt content))"
  shows "updateTaskAtLine content (Num i) u =
           join nl ((map (\<lambda>line. serializeTodo (parseTodoLine line)) (nonblank_lines content))
                      [nat i := serializeTodo u]) \<and>
         deleteTaskAtLine content (Num i) =
           join nl (map (\<lambda>line. serializeTodo (parseTodoLine line))
                      (remove_nth (nat i) (nonblank_lines content)))"
proof -
  from assms have ne: "parseTodoTxt content \<noteq> []" by auto
  from assms have r: "\<not> num_less (Num i) 0" "\<not> num_ge (Num i) (int (length (parseTodoTxt content)))"
    by (simp_all add: num_less_def num_ge_def)
  have upd: "updateTaskAtLine content (Num i) u =
      join nl (map serializeTodo ((parseTodoTxt content)[nat i := u]))"
    using assms ne r by (simp add: updateTaskAtLine_def updateTodoInList_def array_set_def Let_def)
  have del: "deleteTaskAtLine content (Num i) =
      join nl (map serializeTodo (remove_nth (nat i) (parseTodoTxt content)))"
    using assms r by (simp add: deleteTaskAtLine_def Let_def filter_index_remove_nth)
  have rm: "remove_nth n (map f xs) = map f (remove_nth n xs)" for n f and xs :: "jsstring list"
    by (simp add: remove_nth_def take_map drop_map)
  show ?thesis
    unfolding upd del by (simp add: parseTodoTxt_map map_update rm comp_def)
qed

theorem buffer_rewritten_witness:
  "updateTaskAtLine (lit ''  ab '' @ nl @ nl @ lit ''x    c'' @ nl) (Num 0)
     \<lparr>completed = False, priority = None, completionDate = None, creationDate = None,
      description = lit ''Buy milk'', projects = [], contexts = [], tags = Map.empty, raw = []\<rparr>
     = lit ''Buy milk'' @ nl @ lit ''x c'' \<and>
   deleteTaskAtLine (lit ''  ab '' @ nl @ nl @ lit ''x    c'' @ nl) (Num 1) = lit ''ab''"
proof -
  let ?c = "lit ''  ab '' @ nl @ nl @ lit ''x    c'' @ nl"
  let ?u = "\<lparr>completed = False, priority = None, completionDate = None, creationDate = None,
      description = lit ''Buy milk'', projects = [], contexts = [], tags = Map.empty, raw = []\<rparr>"
  have ne: "?c \<noteq> []" by (simp add: lit_def)
  have len: "length (parseTodoTxt ?c) = 2" by code_simp
  have r1: "join nl ((map (\<lambda>line. serializeTodo (parseTodoLine line)) (nonblank_lines ?c))
                      [nat 0 := serializeTodo ?u]) = lit ''Buy milk'' @ nl @ lit ''x c''"
    by code_simp
  have r2: "join nl (map (\<lambda>line. serializeTodo (parseTodoLine line))
                      (remove_nth (nat 1) (nonblank_lines ?c))) = lit ''ab''"
    by code_simp
  from buffer_rewritten[of ?c 0 ?u] ne len
  have u: "updateTaskAtLine ?c (Num 0) ?u = lit ''Buy milk'' @ nl @ lit ''x c''"
    by (simp only: r1) simp
  from buffer_rewritten[of ?c 1 ?u] ne len
  have d: "deleteTaskAtLine ?c (Num 1) = lit ''ab''"
    by (simp only: r2) simp
  from u d show ?thesis by (rule conjI)
qed

section \<open>Facts about the prefix parser\<close>

lemma match_seq_Cons_iff:
  "match_seq (p # ps) s \<longleftrightarrow> (\<exists>c cs. s = c # cs \<and> p c \<and> match_seq ps cs)"
  by (cases s) auto

lemma match_priority_Some_iff:
  "match_priority s = Some (m0, m1) \<longleftrightarrow>
     (\<exists>c w rest. s = 40 # c # 41 # w # rest \<and> is_upper c \<and> is_space w \<and>
        m0 = [40, c, 41, w] \<and> m1 = [c])"
  by (auto simp: match_priority_def priority_regex_def match_seq_Cons_iff)

lemma match_priority_None_iff:
  "match_priority s = None \<longleftrightarrow>
     \<not> (\<exists>c w rest. s = 40 # c # 41 # w # rest \<and> is_upper c \<and> is_space w)"
  by (auto simp: match_priority_def priority_regex_def match_seq_Cons_iff)

lemma date_body_unroll:
  "date_body d \<longleftrightarrow>
     (\<exists>y1 y2 y3 y4 m1 m2 d1 d2. d = [y1, y2, y3, y4, 45, m1, m2, 45, d1, d2] \<and>
        is_digit y1 \<and> is_digit y2 \<and> is_digit y3 \<and> is_digit y4 \<and>
        is_digit m1 \<and> is_digit m2 \<and> is_digit d1 \<and> is_digit d2)"
  by (auto simp: date_body_def date_regex_def match_seq_Cons_iff)

lemma match_date_Some_iff:
  "match_date s = Some (m0, m1) \<longleftrightarrow>
     (\<exists>w rest. s = m1 @ w # rest \<and> date_body m1 \<and> is_space w \<and> m0 = m1 @ [w])"
  by (auto simp: match_date_def date_regex_def match_seq_Cons_iff date_body_unroll)

lemma match_date_None_iff:
  "match_date s = None \<longleftrightarrow> \<not> (\<exists>d w rest. s = d @ w # rest \<and> date_body d \<and> is_space w)"
proof -
  have "match_date s = None \<longleftrightarrow> (\<forall>m0 m1. match_date s \<noteq> Some (m0, m1))"
    by (cases "match_date s") auto
  then show ?thesis
    unfolding match_date_Some_iff by blast
qed

lemma date_body_hd: "date_body d \<Longrightarrow> \<exists>c r. d = c # r \<and> is_digit c"
  by (auto simp: date_body_unroll)

lemma date_body_length: "date_body d \<Longrightarrow> length d = 10"
  by (simp add: date_body_def)

lemma date_body_no_space: "date_body d \<Longrightarrow> c \<in> set d \<Longrightarrow> \<not> is_space c"
  by (auto simp: date_body_unroll dest: digit_not_space)

lemma date_body_no_colon: "date_body d \<Longrightarrow> 58 \<notin> set d"
  by (auto simp: date_body_unroll dest: digit_not_special)

lemma match_date_intro:
  "date_body d \<Longrightarrow> is_space w \<Longrightarrow> match_date (d @ w # rest) = Some (d @ [w], d)"
  by (simp add: match_date_Some_iff)

lemma match_priority_intro:
  "is_upper c \<Longrightarrow> is_space w \<Longrightarrow> match_priority (40 # c # 41 # w # rest) = Some ([40, c, 41, w], [c])"
  by (simp add: match_priority_Some_iff)

lemma parse_priority_cases:
  assumes "parse_priority r = (p, r1)"
  obtains (none) "p = None" "r1 = r" "match_priority r = None"
  | (some) c w where "is_upper c" "is_space w" "r = 40 # c # 41 # w # r1" "p = Some [c]"
proof (cases "match_priority r")
  case None
  with assms show ?thesis by (intro none) (auto simp: parse_priority_def)
next
  case (Some m)
  obtain m0 m1 where m: "m = (m0, m1)" by (cases m)
  from Some m obtain c w rest where *: "r = 40 # c # 41 # w # rest" "is_upper c" "is_space w"
      "m0 = [40, c, 41, w]" "m1 = [c]"
    by (auto simp: match_priority_Some_iff)
  with assms Some m show ?thesis
    by (intro some[of c w]) (auto simp: parse_priority_def slice_def)
qed

lemma parse_priority_intro:
  "is_upper c \<Longrightarrow> is_space w \<Longrightarrow> parse_priority (40 # c # 41 # w # rest) = (Some [c], rest)"
  by (simp add: parse_priority_def match_priority_intro slice_def)

lemma parse_priority_none: "match_priority r = None \<Longrightarrow> parse_priority r = (None, r)"
  by (simp add: parse_priority_def)

lemma parse_dates_none: "match_date r = None \<Longrightarrow> parse_dates cm r = (None, None, r)"
  by (simp add: parse_dates_def)

lemma parse_dates_one:
  "date_body d \<Longrightarrow> is_space w \<Longrightarrow> match_date r2 = None \<Longrightarrow>
   parse_dates cm (d @ w # r2) = (if cm then (Some d, None, r2) else (None, Some d, r2))"
  by (simp add: parse_dates_def match_date_intro slice_def Let_def)

lemma parse_dates_two:
  "date_body d1 \<Longrightarrow> is_space w1 \<Longrightarrow> date_body d2 \<Longrightarrow> is_space w2 \<Longrightarrow>
   parse_dates cm (d1 @ w1 # d2 @ w2 # r2) = (Some d1, Some d2, r2)"
  by (simp add: parse_dates_def match_date_intro slice_def Let_def)

lemma parse_dates_cases:
  assumes "parse_dates cm r = (cd, cr, r2)"
  obtains (zero) "match_date r = None" "cd = None" "cr = None" "r2 = r"
  | (one) d w where "date_body d" "is_space w" "r = d @ w # r2" "match_date r2 = None"
      "cd = (if cm then Some d else None)" "cr = (if cm then None else Some d)"
  | (two) d1 w1 d2 w2 where "date_body d1" "is_space w1" "date_body d2" "is_space w2"
      "r = d1 @ w1 # d2 @ w2 # r2" "cd = Some d1" "cr = Some d2"
proof (cases "match_date r")
  case None
  with assms show ?thesis by (intro zero) (auto simp: parse_dates_none)
next
  case (Some m)
  obtain m0 d1 where m: "m = (m0, d1)" by (cases m)
  from Some m obtain w1 r' where 1: "r = d1 @ w1 # r'" "date_body d1" "is_space w1"
    by (auto simp: match_date_Some_iff)
  show ?thesis
  proof (cases "match_date r'")
    case None
    from parse_dates_one[OF 1(2,3) None, of cm] assms 1(1) have "r2 = r'"
      "cd = (if cm then Some d1 else None)" "cr = (if cm then None else Some d1)"
      by (auto split: if_splits)
    with 1 None show ?thesis by (intro one[of d1 w1]) auto
  next
    case (Some m')
    obtain m0' d2 where m': "m' = (m0', d2)" by (cases m')
    from Some m' obtain w2 r'' where 2: "r' = d2 @ w2 # r''" "date_body d2" "is_space w2"
      by (auto simp: match_date_Some_iff)
    from parse_dates_two[OF 1(2,3) 2(2,3), of cm r''] assms 1(1) 2(1)
    have "r2 = r''" "cd = Some d1" "cr = Some d2" by auto
    with 1 2 show ?thesis by (intro two[of d1 w1 d2 w2]) auto
  qed
qed

lemma parseTodoLine_completed:
  "completed (parseTodoLine line) = fst (parse_completion (trim line))"
  by (simp add: parseTodoLine_def Let_def split_def)

lemma parseTodoLine_priority:
  "priority (parseTodoLine line) = fst (parse_priority (snd (parse_completion (trim line))))"
  by (simp add: parseTodoLine_def Let_def split_def)

lemma parseTodoLine_dates:
  "(completionDate (parseTodoLine line), creationDate (parseTodoLine line), description (parseTodoLine line)) =
     parse_dates (fst (parse_completion (trim line)))
       (snd (parse_priority (snd (parse_completion (trim line)))))"
  by (simp add: parseTodoLine_def Let_def split_def)

lemma parseTodoLine_tags: "tags (parseTodoLine line) = collect_tags (trim line)"
  by (simp add: parseTodoLine_def Let_def split_def)


lemma serializeTodo_parts:
  "serializeTodo todo =
     (if completed todo then lit ''x '' else []) @
     (case priority todo of None \<Rightarrow> [] | Some p \<Rightarrow> if p \<noteq> [] then lit ''('' @ p @ lit '') '' else []) @
     (case completionDate todo of None \<Rightarrow> []
      | Some d \<Rightarrow> if completed todo \<and> d \<noteq> [] then d @ lit '' '' else []) @
     (case creationDate todo of None \<Rightarrow> [] | Some d \<Rightarrow> if d \<noteq> [] then d @ lit '' '' else []) @
     description todo"
  by (simp add: serializeTodo_def truthy_def str_def Let_def split: option.splits)

lemma serializeTodo_emit:
  "serializeTodo todo =
     (if completed todo then lit ''x '' else []) @ emit_priority (priority todo) @
     emit_dates (completed todo) (completionDate todo) (creationDate todo) @ description todo"
  by (simp add: serializeTodo_parts emit_priority_def emit_dates_def)

lemma startsWith_x: "startsWith t (lit ''x '') \<longleftrightarrow> (\<exists>rest. t = 120 # 32 # rest)"
  by (cases t; cases "tl t") (auto simp: startsWith_def lit_def)

lemma trim_Nil_iff: "trim s = [] \<longleftrightarrow> list_all is_space s"
proof
  assume "trim s = []"
  with trim_split[of s] show "list_all is_space s" by auto
next
  assume "list_all is_space s"
  then have "dropWhile is_space s = []" by (simp add: list_all_iff)
  then show "trim s = []" by (simp add: trim_def del: dropWhile_eq_Nil_conv)
qed

lemma is_trimmed_ends_ok: "is_trimmed s \<longleftrightarrow> s = [] \<or> (\<not> is_space (hd s) \<and> ends_ok s)"
  by (cases s) (auto simp: is_trimmed_def ends_ok_def)

lemma ends_ok_append [simp]: "ends_ok b \<Longrightarrow> ends_ok (a @ b)"
  by (simp add: ends_ok_def)

lemma ends_ok_Cons [simp]: "ends_ok b \<Longrightarrow> ends_ok (a # b)"
  by (simp add: ends_ok_def)

lemma ends_ok_after_space: "ends_ok (a @ w # b) \<Longrightarrow> is_space w \<Longrightarrow> ends_ok b"
  by (cases b) (auto simp: ends_ok_def)

lemma ends_ok_trim: "ends_ok s \<Longrightarrow> ends_ok (trim s)"
proof -
  assume s: "ends_ok s"
  then have "\<not> list_all is_space s"
    by (auto simp: ends_ok_def list_all_iff)
  then have "trim s \<noteq> []" by (simp add: trim_Nil_iff)
  with trim_is_trimmed[of s] show ?thesis
    by (simp add: is_trimmed_ends_ok)
qed

lemma parse_completion_cases:
  assumes "parse_completion t = (c, r0)"
  obtains (no) "\<not> c" "r0 = t" "\<not> startsWith t (lit ''x '')"
  | (yes) rest where "c" "t = 120 # 32 # rest" "r0 = trim rest"
proof (cases "startsWith t (lit ''x '')")
  case False
  with assms show ?thesis by (intro no) (auto simp: parse_completion_def)
next
  case True
  then obtain rest where "t = 120 # 32 # rest" by (auto simp: startsWith_x)
  with assms True show ?thesis
    by (intro yes[of rest]) (auto simp: parse_completion_def slice_def)
qed

lemma parse_completion_x: "parse_completion (120 # 32 # rest) = (True, trim rest)"
  by (simp add: parse_completion_def startsWith_x slice_def)

lemma parse_completion_not_x:
  "\<not> startsWith t (lit ''x '') \<Longrightarrow> parse_completion t = (False, t)"
  by (simp add: parse_completion_def)

lemma parse_completion_ends_ok:
  "parse_completion t = (c, r0) \<Longrightarrow> ends_ok t \<Longrightarrow> ends_ok r0"
  by (erule parse_completion_cases)
    (auto intro!: ends_ok_trim dest: ends_ok_after_space[of "[120]" 32, simplified])

lemma parse_completion_trimmed:
  "parse_completion t = (c, r0) \<Longrightarrow> is_trimmed t \<Longrightarrow> is_trimmed r0"
  by (erule parse_completion_cases) (auto simp: trim_is_trimmed)

lemma parse_priority_ends_ok:
  "parse_priority r0 = (p, r1) \<Longrightarrow> ends_ok r0 \<Longrightarrow> ends_ok r1"
  by (erule parse_priority_cases)
    (auto dest: ends_ok_after_space[of "[40, c, 41]" for c, simplified])

lemma parse_dates_ends_ok:
  "parse_dates c r1 = (cd, cr, r2) \<Longrightarrow> ends_ok r1 \<Longrightarrow> ends_ok r2"
proof (erule parse_dates_cases)
  fix d1 w1 d2 w2
  assume e: "ends_ok r1" and r: "r1 = d1 @ w1 # d2 @ w2 # r2" and w: "is_space w1" "is_space w2"
  from e r w(1) have "ends_ok (d2 @ w2 # r2)" by (auto dest: ends_ok_after_space)
  with w(2) show "ends_ok r2" by (auto dest: ends_ok_after_space)
qed (auto dest: ends_ok_after_space)

lemma date_body_ne: "date_body d \<Longrightarrow> d \<noteq> []"
  by (auto simp: date_body_def)

lemma lit_space [simp]: "lit '' '' = [32]"
  by (simp add: lit_def)

lemma lit_x_space [simp]: "lit ''x '' = [120, 32]"
  by (simp add: lit_def)

lemma emit_priority_simps [simp]:
  "emit_priority None = []"
  "emit_priority (Some [c]) = [40, c, 41, 32]"
  by (simp_all add: emit_priority_def lit_def)

lemma emit_dates_head:
  assumes "parse_dates c r1 = (cd, cr, r2)"
  obtains (same) "emit_dates c cd cr @ r2 = r1"
  | (digit) x rest where "emit_dates c cd cr @ r2 = x # rest" "is_digit x"
  using assms
proof (cases rule: parse_dates_cases)
  case zero
  then show ?thesis by (intro same) (simp add: emit_dates_def)
next
  case (one d w)
  from date_body_hd[OF one(1)] obtain x r where d: "d = x # r" "is_digit x" by blast
  with one show ?thesis
    by (intro digit[of x "r @ 32 # r2"]) (auto simp: emit_dates_def)
next
  case (two d1 w1 d2 w2)
  from date_body_hd[OF two(1)] obtain x r where d1: "d1 = x # r" "is_digit x" by blast
  from date_body_hd[OF two(3)] obtain y q where d2: "d2 = y # q" "is_digit y" by blast
  show ?thesis
  proof (cases c)
    case True
    with two d1 d2 show ?thesis
      by (intro digit[of x "r @ 32 # d2 @ 32 # r2"]) (auto simp: emit_dates_def)
  next
    case False
    with two d1 d2 show ?thesis
      by (intro digit[of y "q @ 32 # r2"]) (auto simp: emit_dates_def)
  qed
qed

lemma reparse_dates:
  assumes "parse_dates c r1 = (cd, cr, r2)" and "c \<or> cd = None"
  shows "parse_dates c (emit_dates c cd cr @ r2) = (cd, cr, r2)"
  using assms(1)
proof (cases rule: parse_dates_cases)
  case zero
  then show ?thesis by (simp add: emit_dates_def parse_dates_none)
next
  case (one d w)
  with parse_dates_one[OF one(1) space_32 one(4), of c] date_body_ne[OF one(1)]
  show ?thesis by (auto simp: emit_dates_def)
next
  case (two d1 w1 d2 w2)
  with assms(2) have c by simp
  with two parse_dates_two[OF two(1) space_32 two(3) space_32, of c r2]
    date_body_ne[OF two(1)] date_body_ne[OF two(3)]
  show ?thesis by (auto simp: emit_dates_def)
qed

lemma match_priority_digit: "is_digit x \<Longrightarrow> match_priority (x # rest) = None"
  by (auto simp: match_priority_None_iff dest: digit_not_special)

lemma reparse_priority:
  assumes "parse_priority r0 = (p, r1)"
    and "E = r1 \<or> (\<exists>x rest. E = x # rest \<and> is_digit x)"
  shows "parse_priority (emit_priority p @ E) = (p, E)"
  using assms(1)
proof (cases rule: parse_priority_cases)
  case none
  with assms(2) have "match_priority E = None"
    by (auto simp: match_priority_digit)
  with none show ?thesis by (simp add: parse_priority_none)
next
  case (some c w)
  then show ?thesis by (simp add: parse_priority_intro)
qed

lemma emit_priority_head:
  assumes "parse_priority r0 = (p, r1)"
    and "E = r1 \<or> (\<exists>x rest. E = x # rest \<and> is_digit x)"
  shows "emit_priority p @ E = r0 \<or>
         (\<exists>x rest. emit_priority p @ E = x # rest \<and> (is_digit x \<or> x = 40))"
  using assms(1)
proof (cases rule: parse_priority_cases)
  case none
  with assms(2) show ?thesis by auto
next
  case (some c w)
  then show ?thesis by simp
qed

lemma tokens_single: "a \<noteq> [] \<Longrightarrow> \<forall>c\<in>set a. \<not> is_space c \<Longrightarrow> tokens a = [a]"
proof -
  assume "a \<noteq> []" and ns: "\<forall>c\<in>set a. \<not> is_space c"
  then obtain c cs where a: "a = c # cs" by (cases a) auto
  with ns have "run cs = cs" "after_run cs = []"
    by (simp_all add: run_def after_run_def)
  with a ns show ?thesis by (simp add: tokens_nonspace)
qed

lemma tokens_word_space:
  "a \<noteq> [] \<Longrightarrow> \<forall>c\<in>set a. \<not> is_space c \<Longrightarrow> is_space w \<Longrightarrow> tokens (a @ w # b) = a # tokens b"
  by (simp add: tokens_append_space tokens_single)

lemma tokens_date:
  "date_body d \<Longrightarrow> is_space w \<Longrightarrow> tokens (d @ w # b) = d # tokens b"
  by (rule tokens_word_space) (auto dest: date_body_ne date_body_no_space)

lemma map_filter_dates:
  assumes "parse_dates c r1 = (cd, cr, r2)" and f: "\<And>d. date_body d \<Longrightarrow> f d = None"
  shows "List.map_filter f (tokens (emit_dates c cd cr @ r2)) = List.map_filter f (tokens r1)"
  using assms(1)
proof (cases rule: parse_dates_cases)
  case zero
  then show ?thesis by (simp add: emit_dates_def)
next
  case (one d w)
  with date_body_ne[OF one(1)] show ?thesis
    by (auto simp: emit_dates_def tokens_date)
next
  case (two d1 w1 d2 w2)
  with date_body_ne[OF two(1)] date_body_ne[OF two(3)] f[OF two(1)] f[OF two(3)] show ?thesis
    by (auto simp: emit_dates_def tokens_date map_filter_Cons)
qed

lemma map_filter_priority:
  assumes "parse_priority r0 = (p, r1)"
    and "List.map_filter f (tokens E) = List.map_filter f (tokens r1)"
  shows "List.map_filter f (tokens (emit_priority p @ E)) = List.map_filter f (tokens r0)"
  using assms(1)
proof (cases rule: parse_priority_cases)
  case none
  with assms(2) show ?thesis by simp
next
  case (some c w)
  have "tokens ([40, c, 41] @ v # b) = [40, c, 41] # tokens b" if "is_space v" for v b
    using that some(1) by (intro tokens_word_space) (auto dest: upper_not_space)
  from this[of 32 E] this[of w r1] some assms(2) show ?thesis
    by (simp add: map_filter_Cons split: option.splits)
qed

lemma map_filter_completion:
  assumes "parse_completion t = (c, r0)"
    and "List.map_filter f (tokens X) = List.map_filter f (tokens r0)"
  shows "List.map_filter f (tokens ((if c then lit ''x '' else []) @ X)) = List.map_filter f (tokens t)"
  using assms(1)
proof (cases rule: parse_completion_cases)
  case no
  with assms(2) show ?thesis by simp
next
  case (yes rest)
  have "tokens ([120] @ 32 # b) = [120] # tokens b" for b
    by (intro tokens_word_space) auto
  from this[of X] this[of rest] yes assms(2) show ?thesis
    by (simp add: map_filter_Cons tokens_trim split: option.splits)
qed

lemma marked_date: "date_body d \<Longrightarrow> marked 43 d = None \<and> marked 64 d = None"
  by (auto simp: marked_Cons dest!: date_body_hd dest: digit_not_special)

lemma tag_of_token_date: "date_body d \<Longrightarrow> tag_of_token d = None"
proof -
  assume d: "date_body d"
  then obtain c r where cr: "d = c # r" by (auto dest: date_body_hd)
  with date_body_no_colon[OF d] have "dropWhile (\<lambda>x. x \<noteq> 58) r = []"
    by auto
  with cr show ?thesis
    by (simp add: tag_of_token_def split_tag_def del: dropWhile_eq_Nil_conv)
qed

lemma startsWith_x2: "startsWith t [120, 32] \<longleftrightarrow> (\<exists>rest. t = 120 # 32 # rest)"
  using startsWith_x[of t] by simp

lemma map_filter_reparse:
  assumes "parse_completion t = (c, r0)" and "parse_priority r0 = (p, r1)"
    and "parse_dates c r1 = (cd, cr, r2)" and "\<And>d. date_body d \<Longrightarrow> f d = None"
  shows "List.map_filter f
           (tokens (trim ((if c then lit ''x '' else []) @ emit_priority p @ emit_dates c cd cr @ r2)))
         = List.map_filter f (tokens t)"
  unfolding tokens_trim
  by (intro map_filter_completion[OF assms(1)] map_filter_priority[OF assms(2)]
      map_filter_dates[OF assms(3)] assms(4))

lemma parse_empty:
  "parse_completion [] = (False, [])" "parse_priority [] = (None, [])"
  "parse_dates c [] = (None, None, [])"
  by (simp_all add: parse_completion_def startsWith_def parse_priority_def parse_dates_def
      match_priority_def match_date_def priority_regex_def date_regex_def)

lemma reparse_prefix:
  assumes pc: "parse_completion (trim line) = (c, r0)" and pp: "parse_priority r0 = (p, r1)"
    and pd: "parse_dates c r1 = (cd, cr, r2)"
  defines "E \<equiv> emit_dates c cd cr @ r2"
  defines "X \<equiv> emit_priority p @ E"
  defines "s' \<equiv> (if c then lit ''x '' else []) @ X"
  shows "parse_completion (trim s') = (c, X)" and "parse_priority X = (p, E)"
proof -
  have Ehead: "E = r1 \<or> (\<exists>x rest. E = x # rest \<and> is_digit x)"
    using emit_dates_head[OF pd] unfolding E_def by metis
  show pX: "parse_priority X = (p, E)"
    unfolding X_def by (rule reparse_priority[OF pp Ehead])
  have Xhead: "X = r0 \<or> (\<exists>x rest. X = x # rest \<and> (is_digit x \<or> x = 40))"
    unfolding X_def by (rule emit_priority_head[OF pp Ehead])
  show "parse_completion (trim s') = (c, X)"
  proof (cases "trim line = []")
    case True
    with pc have c: "\<not> c" "r0 = []" by (simp_all add: parse_empty)
    with pp have p: "p = None" "r1 = []" by (simp_all add: parse_empty)
    with pd have "cd = None" "cr = None" "r2 = []" by (simp_all add: parse_empty)
    with c p have "s' = []" "X = []"
      by (simp_all add: s'_def X_def E_def emit_dates_def)
    with c show ?thesis by (simp add: trim_def parse_empty)
  next
    case False
    with trim_is_trimmed[of line] have e: "ends_ok (trim line)"
      by (simp add: is_trimmed_ends_ok)
    from parse_completion_ends_ok[OF pc e] have e0: "ends_ok r0" .
    from parse_priority_ends_ok[OF pp e0] have e1: "ends_ok r1" .
    from parse_dates_ends_ok[OF pd e1] have e2: "ends_ok r2" .
    then have eX: "ends_ok X" by (simp add: X_def E_def)
    have t0: "is_trimmed r0"
      by (rule parse_completion_trimmed[OF pc trim_is_trimmed])
    have tX: "is_trimmed X"
      using Xhead
    proof
      assume "X = r0"
      with t0 show ?thesis by simp
    next
      assume "\<exists>x rest. X = x # rest \<and> (is_digit x \<or> x = 40)"
      then obtain x rest where "X = x # rest" "is_digit x \<or> x = 40" by blast
      with eX show ?thesis
        by (auto simp: is_trimmed_ends_ok dest: digit_not_space)
    qed
    from pc show ?thesis
    proof (cases rule: parse_completion_cases)
      case no
      have nx: "\<not> startsWith X (lit ''x '')"
        using Xhead
      proof
        assume "X = r0"
        with no show ?thesis by simp
      next
        assume "\<exists>x rest. X = x # rest \<and> (is_digit x \<or> x = 40)"
        then show ?thesis
          by (auto simp: startsWith_x2 dest: digit_not_special)
      qed
      from no have "s' = X" by (simp add: s'_def)
      with tX nx no show ?thesis
        by (simp add: trim_id parse_completion_not_x)
    next
      case (yes rest)
      then have s: "s' = 120 # 32 # X" by (simp add: s'_def)
      with eX have "is_trimmed s'"
        by (simp add: is_trimmed_ends_ok)
      with s tX yes show ?thesis
        by (simp add: trim_id parse_completion_x)
    qed
  qed
qed

section \<open>The layout of a serialised record\<close>

text \<open>
  Claim C2. For every record, \<^verbatim>\<open>serializeTodo\<close> emits in this order: \<^verbatim>\<open>"x "\<close> when
  \<open>completed\<close> is true; the priority between parentheses and one space when
  \<open>priority\<close> is set; the completion date and one space when \<open>completed\<close> is true and
  \<open>completionDate\<close> is set; the creation date and one space when \<open>creationDate\<close> is
  set, whatever \<open>completed\<close> is; then the description, and nothing else. The records
  are those of the data model, where a priority or a date that is set is not the empty
  string.
\<close>

theorem serialize_layout:
  assumes "set_fields_nonempty todo"
  shows "serializeTodo todo = claimed_serialize todo"
  using assms
  by (simp add: serializeTodo_parts claimed_serialize_def set_fields_nonempty_def
      split: option.splits)

theorem serialize_layout_witness:
  "set_fields_nonempty \<lparr>completed = True, priority = Some (lit ''A''),
      completionDate = Some (lit ''2024-01-15''), creationDate = Some (lit ''2024-01-01''),
      description = lit ''Buy milk +shopping'', projects = [lit ''shopping''], contexts = [],
      tags = Map.empty, raw = []\<rparr> \<and>
   serializeTodo \<lparr>completed = True, priority = Some (lit ''A''),
      completionDate = Some (lit ''2024-01-15''), creationDate = Some (lit ''2024-01-01''),
      description = lit ''Buy milk +shopping'', projects = [lit ''shopping''], contexts = [],
      tags = Map.empty, raw = []\<rparr>
     = lit ''x (A) 2024-01-15 2024-01-01 Buy milk +shopping'' \<and>
   serializeTodo \<lparr>completed = False, priority = None, completionDate = Some (lit ''2024-01-15''),
      creationDate = Some (lit ''2024-01-01''), description = lit ''Buy milk'',
      projects = [], contexts = [], tags = Map.empty, raw = []\<rparr>
     = lit ''2024-01-01 Buy milk''"
proof -
  let ?a = "\<lparr>completed = True, priority = Some (lit ''A''),
      completionDate = Some (lit ''2024-01-15''), creationDate = Some (lit ''2024-01-01''),
      description = lit ''Buy milk +shopping'', projects = [lit ''shopping''], contexts = [],
      tags = Map.empty, raw = []\<rparr>"
  let ?b = "\<lparr>completed = False, priority = None, completionDate = Some (lit ''2024-01-15''),
      creationDate = Some (lit ''2024-01-01''), description = lit ''Buy milk'',
      projects = [], contexts = [], tags = Map.empty, raw = []\<rparr>"
  have a: "set_fields_nonempty ?a" and b: "set_fields_nonempty ?b"
    by (simp_all add: set_fields_nonempty_def lit_def)
  from serialize_layout[OF a] have 1: "serializeTodo ?a = lit ''x (A) 2024-01-15 2024-01-01 Buy milk +shopping''"
    by (simp add: claimed_serialize_def lit_def)
  from serialize_layout[OF b] have 2: "serializeTodo ?b = lit ''2024-01-01 Buy milk''"
    by (simp add: claimed_serialize_def lit_def)
  from a 1 2 show ?thesis by (intro conjI)
qed

section \<open>The prefix patterns, position by position\<close>

lemma length_ge_4D: "4 \<le> length s \<Longrightarrow> \<exists>a b c d r. s = a # b # c # d # r"
  by (auto simp: numeral_eq_Suc Suc_le_length_iff)

lemma match_priority_prefix:
  "match_priority s = (if priority_prefix s then Some (take 4 s, [s ! 1]) else None)"
proof (cases "priority_prefix s")
  case True
  then obtain a b c d r where "s = a # b # c # d # r"
    by (auto simp: priority_prefix_def dest: length_ge_4D)
  with True show ?thesis
    by (simp add: priority_prefix_def match_priority_intro)
next
  case False
  then have "match_priority s = None"
    by (auto simp: match_priority_None_iff priority_prefix_def)
  with False show ?thesis by simp
qed

lemma length_10D:
  "length d = 10 \<Longrightarrow> \<exists>a b c e f g h i j k. d = [a, b, c, e, f, g, h, i, j, k]"
  by (auto simp: numeral_eq_Suc length_Suc_conv)

lemma date_body_format: "date_body d \<longleftrightarrow> date_format d"
proof
  assume "date_body d"
  then show "date_format d"
    by (auto simp: date_body_unroll date_format_def)
next
  assume f: "date_format d"
  then obtain a b c e f g h i j k where "d = [a, b, c, e, f, g, h, i, j, k]"
    by (auto simp: date_format_def dest: length_10D)
  with f show "date_body d"
    by (simp add: date_body_unroll date_format_def)
qed

lemma match_date_prefix:
  "match_date s = (if date_prefix s then Some (take 11 s, take 10 s) else None)"
proof (cases "date_prefix s")
  case True
  then have l: "11 \<le> length s" and b: "date_body (take 10 s)" and w: "is_space (s ! 10)"
    by (simp_all add: date_prefix_def date_body_format)
  from l have "s = take 10 s @ s ! 10 # drop 11 s"
    using id_take_nth_drop[of 10 s] by simp
  with match_date_intro[OF b w, of "drop 11 s"] l have "match_date s = Some (take 10 s @ [s ! 10], take 10 s)"
    by simp
  moreover from l have "take 11 s = take 10 s @ [s ! 10]"
    using take_Suc_conv_app_nth[of 10 s] by simp
  ultimately show ?thesis using True by simp
next
  case False
  have "\<not> (\<exists>d w rest. s = d @ w # rest \<and> date_body d \<and> is_space w)"
  proof
    assume "\<exists>d w rest. s = d @ w # rest \<and> date_body d \<and> is_space w"
    then obtain d w rest where "s = d @ w # rest" "date_body d" "is_space w" by blast
    then have "date_prefix s"
      by (simp add: date_prefix_def date_body_format[symmetric] date_body_length nth_append)
    with False show False ..
  qed
  then have "match_date s = None" by (simp add: match_date_None_iff)
  with False show ?thesis by simp
qed

lemma parse_priority_prefix:
  "parse_priority r = (if priority_prefix r then (Some [r ! 1], drop 4 r) else (None, r))"
  by (simp add: parse_priority_def match_priority_prefix slice_def priority_prefix_def)

lemma parse_dates_prefix:
  "parse_dates c r =
     (if \<not> date_prefix r then (None, None, r)
      else if date_prefix (drop 11 r) then (Some (take 10 r), Some (take 10 (drop 11 r)), drop 22 r)
      else if c then (Some (take 10 r), None, drop 11 r)
      else (None, Some (take 10 r), drop 11 r))"
  by (simp add: parse_dates_def match_date_prefix slice_def date_prefix_def Let_def)

section \<open>The priority prefix\<close>

text \<open>
  Claim C4, as amended. \<^verbatim>\<open>parseTodoLine\<close> records a priority exactly when the text that is left
  after the completion step starts with \<^verbatim>\<open>(\<close>, one upper-case ASCII letter, \<^verbatim>\<open>)\<close> and
  one whitespace character (any character of the class \<^verbatim>\<open>\s\<close>: a tab or a no-break space
  as well as an ASCII space); the priority is that letter and these four characters are
  consumed. In every other case (lower-case letter, digit, non-ASCII letter, several
  letters, empty parentheses, a space inside them, no whitespace after them) the priority
  is unset and no text is consumed. The text left after the completion step is
  \<open>after_completion\<close>: what follows \<^verbatim>\<open>"x "\<close>, trimmed again.
\<close>

theorem priority_rule:
  "priority (parseTodoLine line) =
     (if priority_prefix (after_completion line) then Some [after_completion line ! 1] else None) \<and>
   after_priority line =
     (if priority_prefix (after_completion line) then drop 4 (after_completion line)
      else after_completion line)"
  by (simp add: parseTodoLine_priority after_priority_def after_completion_def parse_priority_prefix)

theorem priority_rule_witness:
  "priority_prefix (after_completion (lit ''x (B) call''))
   \<and> priority (parseTodoLine (lit ''x (B) call'')) = Some (lit ''B'')
   \<and> after_priority (lit ''x (B) call'') = lit ''call''
   \<and> \<not> priority_prefix (after_completion (lit ''(b) call''))
   \<and> priority (parseTodoLine (lit ''(b) call'')) = None
   \<and> after_priority (lit ''(b) call'') = lit ''(b) call''"
proof -
  have 1: "after_completion (lit ''x (B) call'') = lit ''(B) call''" by code_simp
  have 2: "priority_prefix (lit ''(B) call'')" by code_simp
  have 3: "after_completion (lit ''(b) call'') = lit ''(b) call''" by code_simp
  have 4: "\<not> priority_prefix (lit ''(b) call'')" by code_simp
  from priority_rule[of "lit ''x (B) call''"] priority_rule[of "lit ''(b) call''"]
  show ?thesis
    unfolding 1 3 using 2 4 by (simp add: lit_def)
qed

theorem priority_tab_counterexample:
  "\<not> claimed_priority_prefix (after_completion (lit ''(A)'' @ [0x09] @ lit ''Task'')) \<and>
   priority (parseTodoLine (lit ''(A)'' @ [0x09] @ lit ''Task'')) = Some (lit ''A'') \<and>
   description (parseTodoLine (lit ''(A)'' @ [0x09] @ lit ''Task'')) = lit ''Task''"
  by code_simp

text \<open>The deviations that the specification lists, evaluated.\<close>

lemma priority_deviations:
  "priority (parseTodoLine (lit ''(a) Task'')) = None"
  "priority (parseTodoLine (lit ''(1) Task'')) = None"
  "priority (parseTodoLine (lit ''(AA) Task'')) = None"
  "priority (parseTodoLine (lit ''() Task'')) = None"
  "priority (parseTodoLine (lit ''( A) Task'')) = None"
  "priority (parseTodoLine (lit ''(A)NoSpace'')) = None"
  "priority (parseTodoLine ([0x28, 0xC1, 0x29, 0x20] @ lit ''Task'')) = None"
  "description (parseTodoLine (lit ''(a) Task'')) = lit ''(a) Task''"
  by code_simp+

section \<open>The date prefixes\<close>

text \<open>
  Claim C3, as amended. \<^verbatim>\<open>parseTodoLine\<close> looks for a date only at the head of the text left
  after the completion and priority steps. A date is four digits, \<^verbatim>\<open>-\<close>, two digits,
  \<^verbatim>\<open>-\<close>, two digits and then one whitespace character (any character of the class
  \<^verbatim>\<open>\s\<close>, not only the ASCII space); the digits are not checked against the calendar. When
  two dates follow one another, the first is the completion date and the second the
  creation date, whatever \<open>completed\<close> is. When there is one date only, it is the
  completion date if \<open>completed\<close> is true and the creation date otherwise. When there
  is none, both stay unset. The description is what follows the dates that were taken.
\<close>

theorem date_rule:
  "(completionDate (parseTodoLine line), creationDate (parseTodoLine line),
    description (parseTodoLine line)) =
     (if \<not> date_prefix (after_priority line) then (None, None, after_priority line)
      else if date_prefix (drop 11 (after_priority line))
        then (Some (take 10 (after_priority line)),
              Some (take 10 (drop 11 (after_priority line))), drop 22 (after_priority line))
      else if completed (parseTodoLine line)
        then (Some (take 10 (after_priority line)), None, drop 11 (after_priority line))
      else (None, Some (take 10 (after_priority line)), drop 11 (after_priority line)))"
  unfolding parseTodoLine_dates parseTodoLine_completed after_priority_def after_completion_def
  by (rule parse_dates_prefix)

theorem date_rule_witness:
  "date_prefix (after_priority (lit ''x (A) 2024-13-45 2024-01-01 pay'')) \<and>
   completionDate (parseTodoLine (lit ''x (A) 2024-13-45 2024-01-01 pay'')) = Some (lit ''2024-13-45'') \<and>
   creationDate (parseTodoLine (lit ''x (A) 2024-13-45 2024-01-01 pay'')) = Some (lit ''2024-01-01'') \<and>
   description (parseTodoLine (lit ''x (A) 2024-13-45 2024-01-01 pay'')) = lit ''pay''"
proof -
  have 1: "after_priority (lit ''x (A) 2024-13-45 2024-01-01 pay'') = lit ''2024-13-45 2024-01-01 pay''"
    by code_simp
  have 2: "date_prefix (lit ''2024-13-45 2024-01-01 pay'')" by code_simp
  have 3: "date_prefix (drop 11 (lit ''2024-13-45 2024-01-01 pay''))" by code_simp
  have 4: "take 10 (lit ''2024-13-45 2024-01-01 pay'') = lit ''2024-13-45''"
    "take 10 (drop 11 (lit ''2024-13-45 2024-01-01 pay'')) = lit ''2024-01-01''"
    "drop 22 (lit ''2024-13-45 2024-01-01 pay'') = lit ''pay''"
    by (simp_all add: lit_def)
  from date_rule[of "lit ''x (A) 2024-13-45 2024-01-01 pay''"] show ?thesis
    unfolding 1 4 using 2 3 by simp
qed

theorem date_tab_counterexample:
  "\<not> claimed_date_prefix (after_priority (lit ''2024-01-01'' @ [0x09] @ lit ''foo'')) \<and>
   creationDate (parseTodoLine (lit ''2024-01-01'' @ [0x09] @ lit ''foo'')) = Some (lit ''2024-01-01'') \<and>
   description (parseTodoLine (lit ''2024-01-01'' @ [0x09] @ lit ''foo'')) = lit ''foo''"
  by code_simp

text \<open>Some lines of the edge-case table, evaluated.\<close>

lemma date_examples:
  "creationDate (parseTodoLine (lit ''2024-01-01 a'')) = Some (lit ''2024-01-01'')"
  "completionDate (parseTodoLine (lit ''2024-01-01 a'')) = None"
  "completionDate (parseTodoLine (lit ''x 2024-01-02 a'')) = Some (lit ''2024-01-02'')"
  "creationDate (parseTodoLine (lit ''x 2024-01-02 a'')) = None"
  "completionDate (parseTodoLine (lit ''2024-01-02 2024-01-01 a'')) = Some (lit ''2024-01-02'')"
  "creationDate (parseTodoLine (lit ''2024-01-02 2024-01-01 a'')) = Some (lit ''2024-01-01'')"
  "creationDate (parseTodoLine (lit ''Task 2024-01-01 a'')) = None"
  "creationDate (parseTodoLine (lit ''2024-1-15 a'')) = None"
  by code_simp+

section \<open>Trimming after the completion mark\<close>

lemma trim_right_clean: "s = [] \<or> \<not> is_space (last s) \<Longrightarrow> trim s = dropWhile is_space s"
proof (cases "dropWhile is_space s = []")
  case True
  then show ?thesis by (simp add: trim_def del: dropWhile_eq_Nil_conv)
next
  case False
  assume a: "s = [] \<or> \<not> is_space (last s)"
  let ?l = "dropWhile is_space s"
  from False have "s \<noteq> []" by auto
  have "last ?l = last s"
    using False by (metis append_take_drop_id last_appendR takeWhile_dropWhile_id)
  with a \<open>s \<noteq> []\<close> have "\<not> is_space (hd (rev ?l))"
    using False by (simp add: hd_rev)
  then have "dropWhile is_space (rev ?l) = rev ?l"
    by (simp only: dropWhile_eq_self_iff) simp
  then show ?thesis by (simp add: trim_def)
qed

lemma parse_completion_strip:
  "is_trimmed t \<Longrightarrow> snd (parse_completion t) = strip_completion t"
proof (cases "startsWith t (lit ''x '')")
  case False
  then show ?thesis by (simp add: parse_completion_def strip_completion_def)
next
  case True
  assume t: "is_trimmed t"
  from True obtain rest where r: "t = 120 # 32 # rest" by (auto simp: startsWith_x2)
  with t have "rest = [] \<or> \<not> is_space (last rest)"
    by (auto simp: is_trimmed_def split: if_splits)
  from trim_right_clean[OF this] True r show ?thesis
    by (simp add: parse_completion_def strip_completion_def slice_def)
qed

section \<open>The description\<close>

text \<open>
  Claim C5, as amended. For every input line the description is the text that is left of
  the trimmed line after the completion prefix \<^verbatim>\<open>"x "\<close> together with all the whitespace
  that follows it, then the priority prefix, then the date prefixes have been taken
  away, each only if it is there. Nothing else is trimmed: the whitespace after a priority
  or a date beyond the one character that belongs to the prefix stays in the description.
  For \<^verbatim>\<open>"x  Task"\<close> the description is \<^verbatim>\<open>"Task"\<close>.
\<close>

theorem description_rule:
  "description (parseTodoLine line) = strip_dates (strip_priority (strip_completion (trim line)))"
proof -
  have "description (parseTodoLine line) =
      snd (snd (parse_dates (fst (parse_completion (trim line)))
        (snd (parse_priority (snd (parse_completion (trim line)))))))"
    using parseTodoLine_dates[of line] by (metis snd_conv)
  then show ?thesis
    by (simp add: parse_completion_strip[OF trim_is_trimmed] parse_priority_prefix
        parse_dates_prefix strip_priority_def strip_dates_def)
qed

theorem description_rule_witness:
  "description (parseTodoLine (lit ''  x   (A)  2024-01-01 Task  '')) = lit '' 2024-01-01 Task''"
proof -
  have "strip_dates (strip_priority (strip_completion (trim (lit ''  x   (A)  2024-01-01 Task  ''))))
      = lit '' 2024-01-01 Task''"
    by code_simp
  with description_rule[of "lit ''  x   (A)  2024-01-01 Task  ''"] show ?thesis by simp
qed

theorem description_trim_counterexample:
  "description (parseTodoLine (lit ''x  Task'')) = lit ''Task'' \<and>
   strip_dates (strip_priority (claimed_strip_completion (trim (lit ''x  Task'')))) = lit '' Task''"
  by code_simp

section \<open>Parsing the serialisation of a parse\<close>

lemma reparse_dates_uncompleted:
  assumes "parse_dates False r1 = (Some d1, cr, r2)" and "\<not> date_prefix r2"
  shows "parse_dates False (emit_dates False (Some d1) cr @ r2) = (None, cr, r2)"
  using assms(1)
proof (cases rule: parse_dates_cases)
  case zero
  then show ?thesis by simp
next
  case (one d w)
  then show ?thesis by simp
next
  case (two d1' w1 d2 w2)
  from assms(2) have "match_date r2 = None"
    by (simp add: match_date_prefix)
  with two parse_dates_one[OF two(3) space_32 this, of False] date_body_ne[OF two(3)]
  show ?thesis by (auto simp: emit_dates_def)
qed

text \<open>
  What parsing the serialisation of a parse gives, for every line. The completed flag, the
  priority, the projects, the contexts and the tags are those of the first parse. When the
  first parse is completed or has no completion date, the two dates and the description
  are those of the first parse as well. Otherwise the line is an uncompleted one with two
  leading dates: unless the description begins with a date of its own, the second parse
  has no completion date, and it has the creation date and the description of the first
  parse.
\<close>

lemma reparse_fields:
  "completed (parseTodoLine (serializeTodo (parseTodoLine line))) = completed (parseTodoLine line) \<and>
   priority (parseTodoLine (serializeTodo (parseTodoLine line))) = priority (parseTodoLine line) \<and>
   projects (parseTodoLine (serializeTodo (parseTodoLine line))) = projects (parseTodoLine line) \<and>
   contexts (parseTodoLine (serializeTodo (parseTodoLine line))) = contexts (parseTodoLine line) \<and>
   tags (parseTodoLine (serializeTodo (parseTodoLine line))) = tags (parseTodoLine line) \<and>
   (completed (parseTodoLine line) \<or> completionDate (parseTodoLine line) = None \<longrightarrow>
      completionDate (parseTodoLine (serializeTodo (parseTodoLine line)))
        = completionDate (parseTodoLine line) \<and>
      creationDate (parseTodoLine (serializeTodo (parseTodoLine line)))
        = creationDate (parseTodoLine line) \<and>
      description (parseTodoLine (serializeTodo (parseTodoLine line)))
        = description (parseTodoLine line)) \<and>
   (\<not> completed (parseTodoLine line) \<and> completionDate (parseTodoLine line) \<noteq> None \<and>
    \<not> date_prefix (description (parseTodoLine line)) \<longrightarrow>
      completionDate (parseTodoLine (serializeTodo (parseTodoLine line))) = None \<and>
      creationDate (parseTodoLine (serializeTodo (parseTodoLine line)))
        = creationDate (parseTodoLine line) \<and>
      description (parseTodoLine (serializeTodo (parseTodoLine line)))
        = description (parseTodoLine line))"
proof -
  obtain c r0 where pc: "parse_completion (trim line) = (c, r0)"
    by (cases "parse_completion (trim line)")
  obtain p r1 where pp: "parse_priority r0 = (p, r1)"
    by (cases "parse_priority r0")
  obtain cd cr r2 where pd: "parse_dates c r1 = (cd, cr, r2)"
    by (cases "parse_dates c r1")
  let ?t = "parseTodoLine line"
  have fields: "completed ?t = c" "priority ?t = p" "completionDate ?t = cd" "creationDate ?t = cr"
      "description ?t = r2"
    using parseTodoLine_dates[of line]
    by (simp_all add: parseTodoLine_completed parseTodoLine_priority pc pp pd)
  define s' where "s' = (if c then lit ''x '' else []) @ emit_priority p @ emit_dates c cd cr @ r2"
  have ser: "serializeTodo ?t = s'"
    by (simp only: serializeTodo_emit fields s'_def)
  note re = reparse_prefix[OF pc pp pd, folded s'_def]
  have 1: "completed (parseTodoLine s') = c" "priority (parseTodoLine s') = p"
    by (simp_all add: parseTodoLine_completed parseTodoLine_priority re)
  have 2: "projects (parseTodoLine s') = projects ?t" "contexts (parseTodoLine s') = contexts ?t"
    using map_filter_reparse[OF pc pp pd, of "marked 43", folded s'_def]
      map_filter_reparse[OF pc pp pd, of "marked 64", folded s'_def]
    by (simp_all add: parseTodoLine_projects parseTodoLine_contexts collect_marked_tokens marked_date)
  have 3: "tags (parseTodoLine s') = tags ?t"
  proof (rule ext)
    fix key
    from map_filter_reparse[OF pc pp pd, of tag_of_token, folded s'_def]
    show "tags (parseTodoLine s') key = tags ?t key"
      by (simp add: parseTodoLine_tags collect_tags_tokens tag_of_token_date)
  qed
  have 4: "completionDate (parseTodoLine s') = cd \<and> creationDate (parseTodoLine s') = cr \<and>
      description (parseTodoLine s') = r2" if "c \<or> cd = None"
    using parseTodoLine_dates[of s'] reparse_dates[OF pd that]
    by (simp add: re)
  have 5: "completionDate (parseTodoLine s') = None \<and> creationDate (parseTodoLine s') = cr \<and>
      description (parseTodoLine s') = r2"
    if "\<not> c" "cd \<noteq> None" "\<not> date_prefix r2"
  proof -
    from that obtain d1 where d1: "cd = Some d1" by auto
    from pd that(1) d1 have pd': "parse_dates False r1 = (Some d1, cr, r2)" by simp
    from reparse_dates_uncompleted[OF pd' that(3)] parseTodoLine_dates[of s'] re that(1) d1
    show ?thesis by simp
  qed
  show ?thesis
    unfolding ser fields using 1 2 3 4 5 by blast
qed

text \<open>
  Claim C1. For every input line, parsing the serialisation of its parse gives the same
  completed flag, priority, completion date, creation date, projects, contexts and tags as
  the first parse, and the same description. The code departs from this at the uncompleted
  line \<^verbatim>\<open>2024-01-01 2024-01-02 foo\<close>: its parse is not completed and yet has the completion
  date \<^verbatim>\<open>2024-01-01\<close>, its serialisation is \<^verbatim>\<open>2024-01-02 foo\<close>, and the parse of that has no
  completion date.
\<close>

theorem reparse_two_dates_loses_completion_date:
  "\<not> completed (parseTodoLine (lit ''2024-01-01 2024-01-02 foo'')) \<and>
   completionDate (parseTodoLine (lit ''2024-01-01 2024-01-02 foo'')) = Some (lit ''2024-01-01'') \<and>
   creationDate (parseTodoLine (lit ''2024-01-01 2024-01-02 foo'')) = Some (lit ''2024-01-02'') \<and>
   serializeTodo (parseTodoLine (lit ''2024-01-01 2024-01-02 foo'')) = lit ''2024-01-02 foo'' \<and>
   completionDate (parseTodoLine (serializeTodo (parseTodoLine (lit ''2024-01-01 2024-01-02 foo''))))
     = None"
proof -
  have 1: "\<not> completed (parseTodoLine (lit ''2024-01-01 2024-01-02 foo''))"
    by code_simp
  have 2: "completionDate (parseTodoLine (lit ''2024-01-01 2024-01-02 foo'')) = Some (lit ''2024-01-01'')"
    by code_simp
  have 3: "creationDate (parseTodoLine (lit ''2024-01-01 2024-01-02 foo'')) = Some (lit ''2024-01-02'')"
    by code_simp
  have 4: "serializeTodo (parseTodoLine (lit ''2024-01-01 2024-01-02 foo'')) = lit ''2024-01-02 foo''"
    by code_simp
  have 5: "completionDate (parseTodoLine (serializeTodo (parseTodoLine (lit ''2024-01-01 2024-01-02 foo''))))
     = None"
    by code_simp
  from 1 2 3 4 5 show ?thesis by (intro conjI)
qed

section \<open>Splitting a token at a colon\<close>

lemma split_tag_first_colon:
  "\<not> startsWith t (lit '':'') \<Longrightarrow> split_tag t = first_colon_split t"
  by (cases t) (auto simp: split_tag_def first_colon_split_def startsWith_def lit_def Let_def)

lemma map_filter_cong_set:
  "(\<And>x. x \<in> set xs \<Longrightarrow> f x = g x) \<Longrightarrow> List.map_filter f xs = List.map_filter g xs"
  by (induction xs) (auto simp: map_filter_Cons split: option.splits)

section \<open>Tags\<close>

text \<open>
  What the scan for tags computes, token by token. The tokens are the maximal runs of
  non-whitespace characters of the trimmed line. A token that begins with \<^verbatim>\<open>+\<close> or \<^verbatim>\<open>@\<close>
  gives no tag; any other token is split at its first colon that is not its first
  character, and gives no tag when nothing follows that colon. For every key other than
  \<^verbatim>\<open>__proto__\<close>, \<open>tags\<close> maps the key to the value of the rightmost token that gives
  it. For a line none of whose tokens begins with a colon, this is the split of every
  token at its first colon.
\<close>

lemma tags_by_token:
  assumes "key \<noteq> lit ''__proto__''"
  shows "tags (parseTodoLine line) key =
           map_of (rev (List.map_filter tag_of_token (tokens (trim line)))) key \<and>
         ((\<forall>t \<in> set (tokens (trim line)). \<not> startsWith t (lit '':'')) \<longrightarrow>
            tags (parseTodoLine line) key = claimed_tags (trim line) key)"
proof -
  have 1: "tags (parseTodoLine line) key =
      map_of (rev (List.map_filter tag_of_token (tokens (trim line)))) key"
    using assms by (simp add: parseTodoLine_tags collect_tags_tokens)
  have 2: "List.map_filter tag_of_token (tokens (trim line)) =
      List.map_filter (\<lambda>t. if startsWith t (lit ''+'') \<or> startsWith t (lit ''@'') then None
            else first_colon_split t) (tokens (trim line))"
    if "\<forall>t \<in> set (tokens (trim line)). \<not> startsWith t (lit '':'')"
    using that by (intro map_filter_cong_set) (simp add: tag_of_token_def split_tag_first_colon)
  from 1 2 show ?thesis
    by (simp add: claimed_tags_def)
qed

text \<open>
  Examples: the split at the first colon, the later of two tags with one key, and tokens
  that give no tag.
\<close>

lemma tags_examples:
  "tags (parseTodoLine (lit ''Task key:val:ue'')) (lit ''key'') = Some (lit ''val:ue'')"
  "tags (parseTodoLine (lit ''T key:val:ue a:1 a:2 k: +p:q'')) (lit ''a'') = Some (lit ''2'')"
  "tags (parseTodoLine (lit ''Task key:'')) = Map.empty"
  "tags (parseTodoLine (lit ''Task :value'')) = Map.empty"
  "tags (parseTodoLine (lit ''http://example.com'')) (lit ''http'') = Some (lit ''//example.com'')"
proof -
  show "tags (parseTodoLine (lit ''Task key:val:ue'')) (lit ''key'') = Some (lit ''val:ue'')"
    by code_simp
  show "tags (parseTodoLine (lit ''T key:val:ue a:1 a:2 k: +p:q'')) (lit ''a'') = Some (lit ''2'')"
    by code_simp
  show "tags (parseTodoLine (lit ''http://example.com'')) (lit ''http'') = Some (lit ''//example.com'')"
    by code_simp
  have e: "collect_tags s = Map.empty" if "List.map_filter tag_of_token (tokens s) = []" for s
    by (rule ext) (simp add: collect_tags_tokens that)
  have "List.map_filter tag_of_token (tokens (trim (lit ''Task key:''))) = []" by code_simp
  from e[OF this] show "tags (parseTodoLine (lit ''Task key:'')) = Map.empty"
    by (simp add: parseTodoLine_tags)
  have "List.map_filter tag_of_token (tokens (trim (lit ''Task :value''))) = []" by code_simp
  from e[OF this] show "tags (parseTodoLine (lit ''Task :value'')) = Map.empty"
    by (simp add: parseTodoLine_tags)
qed

text \<open>
  Claim C7. For every input line, \<open>tags\<close> holds the tags of the trimmed line: every
  token that does not begin with \<^verbatim>\<open>+\<close> or \<^verbatim>\<open>@\<close> is split at its first colon, the value
  keeping any further colon; a bare \<^verbatim>\<open>key:\<close> and a bare \<^verbatim>\<open>:value\<close> give no tag; of two
  tags with one key the later one stays. The code departs from this in two places. The
  line \<^verbatim>\<open>:a:b\<close> has nothing before its first colon, so it is a bare \<^verbatim>\<open>:value\<close>, and yet
  the code gives it the tag \<^verbatim>\<open>:a\<close> with the value \<^verbatim>\<open>b\<close>: the pattern for the key takes the
  leading colon. The line \<^verbatim>\<open>__proto__:x\<close> has the key \<^verbatim>\<open>__proto__\<close> and the value \<^verbatim>\<open>x\<close>, and
  the code gives it no tag at all: the assignment to that property of a plain object does
  nothing.
\<close>

theorem tags_two_slips:
  "first_colon_split (lit '':a:b'') = None \<and>
   claimed_tags (trim (lit '':a:b'')) (lit '':a'') = None \<and>
   tags (parseTodoLine (lit '':a:b'')) (lit '':a'') = Some (lit ''b'') \<and>
   claimed_tags (trim (lit ''__proto__:x'')) (lit ''__proto__'') = Some (lit ''x'') \<and>
   tags (parseTodoLine (lit ''__proto__:x'')) = Map.empty"
proof -
  have 1: "first_colon_split (lit '':a:b'') = None"
    by code_simp
  have 2: "claimed_tags (trim (lit '':a:b'')) (lit '':a'') = None"
    by code_simp
  have 3: "tags (parseTodoLine (lit '':a:b'')) (lit '':a'') = Some (lit ''b'')"
    by code_simp
  have 4: "claimed_tags (trim (lit ''__proto__:x'')) (lit ''__proto__'') = Some (lit ''x'')"
    by code_simp
  have "matchAll_tag (trim (lit ''__proto__:x'')) = [(lit ''__proto__:x'', lit ''__proto__'', lit ''x'')]"
    by code_simp
  then have 5: "tags (parseTodoLine (lit ''__proto__:x'')) = Map.empty"
    by (simp add: parseTodoLine_tags collect_tags_def tag_step_def obj_set_def)
  from 1 2 3 4 5 show ?thesis by (intro conjI)
qed

section \<open>The shape of the results\<close>










section \<open>No operation raises\<close>

lemma bind_js_Inr [simp]: "bind_js (Inr v) f = f v"
  by (simp add: bind_js_def)

text \<open>
  The error is there to be raised: a read from the result of a match that failed, with no
  guard before it, gives \<open>TypeError\<close>.
\<close>

lemma unguarded_read_raises:
  "match_priority r = None \<Longrightarrow>
   bind_js (at_index (match_array (match_priority r)) 1) f = Inl TypeError"
  "match_date r = None \<Longrightarrow>
   bind_js (at_index (match_array (match_date r)) 0) g = Inl TypeError"
  "bind_js (length_of None) h = Inl TypeError"
  by (simp_all add: bind_js_def match_array_def at_index_def length_of_def)











end
